theory Spec2Isabelle
  imports Complex_Main
begin

section \<open>Modelling conventions\<close>

text \<open>
  The development embeds the layout engine (layout.go) and the attribute parsers (ast.go)
  of the XML-to-PDF library.

  \<^item> A Go \<open>float64\<close> is modelled as an exact \<open>real\<close>: rounding, infinities and NaN are not
    represented. Where the source divides by a quantity that can be zero and then uses the
    quotient, the model returns an error value instead of a number.
  \<^item> Attribute values and identifiers (\<open>Type\<close>, \<open>Direction\<close>, \<open>Align\<close>, colour strings) are
    byte strings: \<open>string\<close>, whose \<open>char\<close> is one byte, as Go's \<open>len\<close> and indexing see them.
  \<^item> Text content (\<open>Value\<close>, \<open>ValueLines\<close>) is a list of code points (\<open>rune\<close>), as the source
    handles it through \<open>[]rune\<close>, \<open>strings.Fields\<close> and \<open>strings.TrimSpace\<close>; \<open>len\<close> of such a
    text is its UTF-8 length. XML character data is valid UTF-8, so nothing is lost.
  \<^item> A nil pointer or nil slice whose nil-ness the source tests is an \<open>option\<close>.
  \<^item> Pointers to widgets form a tree in every function modelled here, so a widget is a
    value, and a function that mutates a widget returns the new widget.
\<close>

section \<open>Colours (ast.go)\<close>

record Color =
  R :: int
  G :: int
  B :: int

datatype NumError = ErrSyntax | ErrRange

text \<open>
  \<open>strconv.ParseUint\<close> decodes a digit as \<open>c - '0'\<close> for \<open>'0'..'9'\<close> and as
  \<open>lower(c) - 'a' + 10\<close> when \<open>lower(c) = c | 0x20\<close> lies in \<open>'a'..'z'\<close>, that is for both
  cases of a letter; any other byte is a syntax error.
\<close>

definition digitVal :: "char \<Rightarrow> nat option" where
  "digitVal c =
     (let n = (of_char c :: nat) in
      if 48 \<le> n \<and> n \<le> 57 then Some (n - 48)
      else if 97 \<le> n \<and> n \<le> 122 then Some (n - 97 + 10)
      else if 65 \<le> n \<and> n \<le> 90 then Some (n - 65 + 10)
      else None)"

text \<open>
  The digit loop of \<open>strconv.ParseUint\<close>: a digit not below the base is a syntax error
  with value 0; a value above \<open>maxVal\<close> stops the loop at once with \<open>maxVal\<close> and a range
  error. (The separate test \<open>n >= cutoff\<close> of the library guards the 64-bit product and
  cannot fire before the \<open>maxVal\<close> test for a bit size of 32.)
\<close>

fun ParseUint_loop :: "nat \<Rightarrow> nat \<Rightarrow> nat \<Rightarrow> string \<Rightarrow> nat \<times> NumError option" where
  "ParseUint_loop base maxVal n [] = (n, None)"
| "ParseUint_loop base maxVal n (c # cs) =
     (case digitVal c of
        None \<Rightarrow> (0, Some ErrSyntax)
      | Some d \<Rightarrow>
          if d \<ge> base then (0, Some ErrSyntax)
          else if n * base + d > maxVal then (maxVal, Some ErrRange)
          else ParseUint_loop base maxVal (n * base + d) cs)"

definition ParseUint :: "string \<Rightarrow> nat \<Rightarrow> nat \<Rightarrow> nat \<times> NumError option" where
  "ParseUint s base bitSize =
     (if s = [] then (0, Some ErrSyntax) else ParseUint_loop base (2 ^ bitSize - 1) 0 s)"

definition ParseInt :: "string \<Rightarrow> nat \<Rightarrow> nat \<Rightarrow> int \<times> NumError option" where
  "ParseInt s base bitSize =
     (if s = [] then (0, Some ErrSyntax)
      else
        let neg = (hd s = CHR ''-'');
            s1 = (if hd s = CHR ''+'' \<or> neg then tl s else s);
            r = ParseUint s1 base bitSize;
            un = fst r;
            cutoff = (2 :: nat) ^ (bitSize - 1)
        in if snd r = Some ErrSyntax then (0, Some ErrSyntax)
           else if \<not> neg \<and> un \<ge> cutoff then (int cutoff - 1, Some ErrRange)
           else if neg \<and> un > cutoff then (- int cutoff, Some ErrRange)
           else ((if neg then - int un else int un), None))"

text \<open>\<open>parseHex\<close>: \<open>n, _ := strconv.ParseInt(v, 16, 32); return int(n)\<close>.\<close>

definition parseHex :: "string \<Rightarrow> int" where
  "parseHex v = fst (ParseInt v 16 32)"

definition HasPrefix :: "string \<Rightarrow> string \<Rightarrow> bool" where
  "HasPrefix s p = (take (length p) s = p)"

text \<open>
  \<open>string(v[0])\<close> converts one byte, as an integer, to the UTF-8 encoding of the code
  point of that number: one byte below 128, two bytes from 128 on.
\<close>

definition byteToString :: "char \<Rightarrow> string" where
  "byteToString c =
     (let n = (of_char c :: nat) in
      if n < 128 then [c]
      else [char_of (192 + n div 64), char_of (128 + n mod 64)])"

definition parseColor :: "string \<Rightarrow> Color option" where
  "parseColor v0 =
     (if \<not> HasPrefix v0 ''#'' then None
      else
        let v = drop 1 v0 in
        if length v = 3 then
          Some \<lparr>R = parseHex (byteToString (v ! 0) @ byteToString (v ! 0)),
                G = parseHex (byteToString (v ! 1) @ byteToString (v ! 1)),
                B = parseHex (byteToString (v ! 2) @ byteToString (v ! 2))\<rparr>
        else if length v = 6 then
          Some \<lparr>R = parseHex (take 2 v),
                G = parseHex (take 2 (drop 2 v)),
                B = parseHex (take 2 (drop 4 v))\<rparr>
        else None)"

text \<open>
  The reading of a hexadecimal digit that the colour notation \<open>#RGB\<close> / \<open>#RRGGBB\<close> stands
  for, written independently of the library's digit loop.
\<close>

definition isHexDigit :: "char \<Rightarrow> bool" where
  "isHexDigit c =
     (let n = (of_char c :: nat) in
      (48 \<le> n \<and> n \<le> 57) \<or> (97 \<le> n \<and> n \<le> 102) \<or> (65 \<le> n \<and> n \<le> 70))"

definition hexValue :: "char \<Rightarrow> int" where
  "hexValue c =
     (let n = (of_char c :: nat) in
      if n \<le> 57 then int n - 48 else if 97 \<le> n then int n - 87 else int n - 55)"

section \<open>Data model (ast.go)\<close>

type_synonym rune = nat
type_synonym gostring = "rune list"

record Box =
  Bottom :: real
  Left :: real
  Right :: real
  Top :: real

record CellOption =
  OptAlign :: int

text \<open>
  \<open>CalculatedInfo\<close>. The fields \<open>X\<close>, \<open>Y\<close>, \<open>Width\<close>, \<open>Height\<close>, \<open>LineHeight\<close>, \<open>FontFamily\<close>,
  \<open>FontSize\<close>, \<open>Bold\<close>, \<open>Color\<close> and \<open>Direction\<close> carry the prefix \<open>Calc\<close>, since the widget has
  declared fields of the same names. The horizontal positions (\<open>OuterX\<close>, \<open>InnerX\<close>, \<open>X\<close>) are
  left out: no function embedded here reads or writes them.
\<close>

record CalculatedInfo =
  OuterY :: real
  InnerY :: real
  CalcY :: real
  CalcWidth :: real
  CalcHeight :: real
  OuterWidth :: real
  OuterHeight :: real
  InnerWidth :: real
  InnerHeight :: real
  CalcLineHeight :: real
  CalcFontFamily :: string
  CalcFontSize :: real
  CalcBold :: bool
  CalcColor :: "Color option"
  CalcDirection :: string

text \<open>
  The fields of \<open>Widget\<close> other than the widgets it points to. Fields that no embedded
  function reads (\<open>ID\<close>, \<open>X\<close>, \<open>Right\<close>, \<open>Bottom\<close>, \<open>Border\<close>, \<open>LineSpace\<close>, \<open>StrokeColor\<close>,
  \<open>Hidden\<close>, \<open>CellBorder\<close>, \<open>CellPadding\<close> and the image fields) are left out.
  \<open>Calculated\<close> is a pointer in the source, nil until \<open>initCalculatedInfo\<close> allocates it; the
  zero record stands for nil, and every function below runs after that allocation.
  \<open>ValueLines\<close> is \<open>None\<close> for a nil slice.
\<close>

record WidgetAttrs =
  Type :: string
  Y :: real
  Width :: real
  Height :: real
  Padding :: "Box option"
  Margin :: "Box option"
  LineHeight :: real
  FontFamily :: string
  FontSize :: real
  Bold :: bool
  Color :: "Color option"
  BackgroundColor :: "Color option"
  Gap :: real
  Direction :: string
  Value :: gostring
  ValueLines :: "gostring list option"
  Wrap :: bool
  Align :: string
  Option :: "CellOption option"
  Calculated :: CalculatedInfo
  PageNumber :: int
  CarryColumn :: int
  CarryLast :: "real option"
  CarryNext :: "real option"
  AlternateColor :: "Color option"
  BreakMargin :: real
  IsHeader :: bool

datatype Widget =
  Widget (attrs: WidgetAttrs) (Children: "Widget list") (Columns: "Widget list")
    (CarryHeader: "Widget option") (CarryFooter: "Widget option")

record Page =
  PageWidget :: Widget
  Header :: "Widget option"
  Footer :: "Widget option"
  ResetPageNumbers :: bool

text \<open>
  The layouter: the font size of its \<open>PdfLibDoc\<close> (set to 7.7 by \<open>SetLayout\<close>) and its number
  formatter, an interface of the source that may be nil; \<open>ParseNumber\<close> is its only method
  used by the layout, \<open>None\<close> being a returned error.
\<close>

record Layouter =
  pdLibDoc_FontSize :: real
  formatter :: "(gostring \<Rightarrow> real option) option"

datatype error = ParseError string | Panic string | NonFinite string

definition zeroCalculated :: CalculatedInfo where
  "zeroCalculated =
     \<lparr>OuterY = 0, InnerY = 0, CalcY = 0, CalcWidth = 0, CalcHeight = 0, OuterWidth = 0,
      OuterHeight = 0, InnerWidth = 0, InnerHeight = 0, CalcLineHeight = 0,
      CalcFontFamily = [], CalcFontSize = 0, CalcBold = False, CalcColor = None,
      CalcDirection = []\<rparr>"

text \<open>The zero value of the struct: \<open>Widget{}\<close>.\<close>

definition zeroAttrs :: WidgetAttrs where
  "zeroAttrs =
     \<lparr>Type = [], Y = 0, Width = 0, Height = 0, Padding = None, Margin = None,
      LineHeight = 0, FontFamily = [], FontSize = 0, Bold = False, Color = None,
      BackgroundColor = None, Gap = 0, Direction = [], Value = [], ValueLines = None,
      Wrap = False, Align = [], Option = None, Calculated = zeroCalculated, PageNumber = 0,
      CarryColumn = 0, CarryLast = None, CarryNext = None, AlternateColor = None,
      BreakMargin = 0, IsHeader = False\<rparr>"

definition map_attrs :: "(WidgetAttrs \<Rightarrow> WidgetAttrs) \<Rightarrow> Widget \<Rightarrow> Widget" where
  "map_attrs f w = Widget (f (attrs w)) (Children w) (Columns w) (CarryHeader w) (CarryFooter w)"

definition calc :: "Widget \<Rightarrow> CalculatedInfo" where
  "calc w = Calculated (attrs w)"

definition set_calc :: "CalculatedInfo \<Rightarrow> Widget \<Rightarrow> Widget" where
  "set_calc c w = map_attrs (\<lambda>a. a\<lparr>Calculated := c\<rparr>) w"

definition set_Children :: "Widget list \<Rightarrow> Widget \<Rightarrow> Widget" where
  "set_Children cs w = Widget (attrs w) cs (Columns w) (CarryHeader w) (CarryFooter w)"

section \<open>Box metrics (layout.go)\<close>

definition addjustCalculatedWidth :: "Widget \<Rightarrow> Widget" where
  "addjustCalculatedWidth w =
     (let a = attrs w;
          c0 = Calculated a;
          c1 = (if CalcWidth c0 = 0 then c0\<lparr>CalcWidth := Width a\<rparr> else c0);
          c2 = c1\<lparr>InnerWidth := CalcWidth c1\<rparr>;
          c3 = (case Padding a of
                  None \<Rightarrow> c2
                | Some p \<Rightarrow>
                    let iw = InnerWidth c2 - (Left p + Right p)
                    in c2\<lparr>InnerWidth := (if iw < 0 then 0 else iw)\<rparr>);
          c4 = c3\<lparr>OuterWidth := CalcWidth c3\<rparr>;
          c5 = (case Margin a of
                  None \<Rightarrow> c4
                | Some m \<Rightarrow> c4\<lparr>OuterWidth := OuterWidth c4 + (Left m + Right m)\<rparr>)
      in set_calc c5 w)"

definition recalculateFromInnerHeight :: "Widget \<Rightarrow> Widget" where
  "recalculateFromInnerHeight w =
     (let a = attrs w;
          c0 = Calculated a;
          c1 = c0\<lparr>CalcHeight := InnerHeight c0\<rparr>;
          c2 = (case Padding a of
                  None \<Rightarrow> c1
                | Some p \<Rightarrow> c1\<lparr>CalcHeight := CalcHeight c1 + (Top p + Bottom p)\<rparr>);
          c3 = c2\<lparr>OuterHeight := CalcHeight c2\<rparr>;
          c4 = (case Margin a of
                  None \<Rightarrow> c3
                | Some m \<Rightarrow> c3\<lparr>OuterHeight := OuterHeight c3 + (Top m + Bottom m)\<rparr>)
      in set_calc c4 w)"

definition addjustCalculatedHeight :: "Widget \<Rightarrow> Widget" where
  "addjustCalculatedHeight w =
     (let a = attrs w;
          c0 = Calculated a;
          c1 = (if CalcHeight c0 = 0 then c0\<lparr>CalcHeight := Height a\<rparr> else c0);
          c2 = c1\<lparr>InnerHeight := CalcHeight c1\<rparr>;
          c3 = (case Padding a of
                  None \<Rightarrow> c2
                | Some p \<Rightarrow>
                    let ih = InnerHeight c2 - (Top p + Bottom p)
                    in c2\<lparr>InnerHeight := (if ih < 0 then 0 else ih)\<rparr>);
          c4 = c3\<lparr>OuterHeight := CalcHeight c3\<rparr>;
          c5 = (case Margin a of
                  None \<Rightarrow> c4
                | Some m \<Rightarrow> c4\<lparr>OuterHeight := OuterHeight c4 + (Top m + Bottom m)\<rparr>)
      in set_calc c5 w)"


definition recalculateFromOuterWidth :: "Widget \<Rightarrow> Widget" where
  "recalculateFromOuterWidth w =
     (let a = attrs w;
          c0 = Calculated a;
          c1 = c0\<lparr>CalcWidth := OuterWidth c0\<rparr>;
          c2 = (case Margin a of
                  None \<Rightarrow> c1
                | Some m \<Rightarrow> c1\<lparr>CalcWidth := CalcWidth c1 - (Left m + Right m)\<rparr>);
          c3 = c2\<lparr>InnerWidth := CalcWidth c2\<rparr>;
          c4 = (case Padding a of
                  None \<Rightarrow> c3
                | Some p \<Rightarrow>
                    let iw = InnerWidth c3 - (Left p + Right p)
                    in c3\<lparr>InnerWidth := (if iw < 0 then 0 else iw)\<rparr>)
      in set_calc c4 w)"

definition adjustCalculatedY :: "Widget \<Rightarrow> Widget" where
  "adjustCalculatedY w =
     (let a = attrs w;
          c0 = Calculated a;
          c1 = c0\<lparr>InnerY := OuterY c0\<rparr>;
          c2 = (case Margin a of
                  None \<Rightarrow> c1
                | Some m \<Rightarrow> c1\<lparr>InnerY := InnerY c1 + Top m\<rparr>);
          c3 = c2\<lparr>CalcY := InnerY c2\<rparr>;
          c4 = (case Padding a of
                  None \<Rightarrow> c3
                | Some p \<Rightarrow> c3\<lparr>CalcY := CalcY c3 + Top p\<rparr>)
      in set_calc c4 w)"

section \<open>Text measurement and wrapping (ast.go, layout.go)\<close>

text \<open>The number of bytes of the UTF-8 encoding of a code point.\<close>

definition utf8len :: "rune \<Rightarrow> nat" where
  "utf8len r = (if r < 128 then 1 else if r < 2048 then 2 else if r < 65536 then 3 else 4)"

definition len :: "gostring \<Rightarrow> nat" where
  "len s = sum_list (map utf8len s)"

text \<open>A text literal of the source, as code points.\<close>

definition str :: "string \<Rightarrow> gostring" where
  "str s = map of_char s"

text \<open>\<open>PdfLibDoc.MeasureTextWidth\<close>, with the receiver's \<open>FontSize\<close> as first argument.\<close>

definition MeasureTextWidth :: "real \<Rightarrow> gostring \<Rightarrow> real" where
  "MeasureTextWidth fontSize text =
     (if text = [] then 0 else real (len text) * 0.45 * fontSize)"

text \<open>
  \<open>measureTextWidth\<close> sets the font size of the shared \<open>PdfLibDoc\<close>, measures and restores
  the former size, so the layouter is unchanged when it returns.
\<close>

definition measureTextWidth :: "Layouter \<Rightarrow> real \<Rightarrow> gostring \<Rightarrow> real" where
  "measureTextWidth l fontSize text =
     (let current = pdLibDoc_FontSize l in
      if current \<noteq> fontSize then MeasureTextWidth fontSize text
      else MeasureTextWidth current text)"

text \<open>\<open>unicode.IsSpace\<close>.\<close>

definition isSpace :: "rune \<Rightarrow> bool" where
  "isSpace r =
     ((9 \<le> r \<and> r \<le> 13) \<or> r = 32 \<or> r = 133 \<or> r = 160 \<or> r = 5760
      \<or> (8192 \<le> r \<and> r \<le> 8202) \<or> r = 8232 \<or> r = 8233 \<or> r = 8239 \<or> r = 8287
      \<or> r = 12288)"

definition TrimSpace :: "gostring \<Rightarrow> gostring" where
  "TrimSpace s = rev (dropWhile isSpace (rev (dropWhile isSpace s)))"

text \<open>\<open>strings.Fields\<close>: the maximal runs of non-space code points.\<close>

fun fieldsFrom :: "gostring \<Rightarrow> gostring \<Rightarrow> gostring list" where
  "fieldsFrom cur [] = (if cur = [] then [] else [cur])"
| "fieldsFrom cur (c # cs) =
     (if isSpace c then (if cur = [] then fieldsFrom [] cs else cur # fieldsFrom [] cs)
      else fieldsFrom (cur @ [c]) cs)"

definition Fields :: "gostring \<Rightarrow> gostring list" where
  "Fields s = fieldsFrom [] s"

text \<open>\<open>strings.Split\<close> with a separator of one code point; the result is never empty.\<close>

fun Split :: "gostring \<Rightarrow> rune \<Rightarrow> gostring list" where
  "Split [] sep = [[]]"
| "Split (c # cs) sep =
     (if c = sep then [] # Split cs sep
      else (case Split cs sep of [] \<Rightarrow> [[c]] | p # ps \<Rightarrow> (c # p) # ps))"

text \<open>\<open>strings.Join\<close> with a separator of one code point.\<close>

fun Join :: "gostring list \<Rightarrow> rune \<Rightarrow> gostring" where
  "Join [] sep = []"
| "Join [x] sep = x"
| "Join (x # y # ys) sep = x @ sep # Join (y # ys) sep"

text \<open>
  The loop \<open>for _, r := range runes\<close> of \<open>splitLines\<close>: \<open>wordBuff\<close> holds one string per
  code point, so it is the list of those code points and \<open>strings.Join(wordBuff, "")\<close> is
  the list itself.
\<close>

fun charLoop :: "Layouter \<Rightarrow> real \<Rightarrow> real \<Rightarrow> real \<Rightarrow> gostring \<Rightarrow> gostring \<Rightarrow> gostring" where
  "charLoop l fontSize availableWidth wordWidth wordBuff [] = wordBuff"
| "charLoop l fontSize availableWidth wordWidth wordBuff (r # rs) =
     (let charWidth = measureTextWidth l fontSize [r] in
      if wordWidth + charWidth > availableWidth \<and> wordBuff \<noteq> [] then wordBuff
      else charLoop l fontSize availableWidth (wordWidth + charWidth) (wordBuff @ [r]) rs)"

text \<open>The loop \<open>for len(remainingWord) > 0\<close> that breaks a long word.\<close>

function breakWord ::
  "Layouter \<Rightarrow> real \<Rightarrow> real \<Rightarrow> gostring list \<Rightarrow> gostring \<Rightarrow> gostring list" where
  "breakWord l fontSize availableWidth lines remainingWord =
     (if remainingWord = [] then lines
      else
        let wordBuff = charLoop l fontSize availableWidth 0 [] remainingWord in
        if wordBuff \<noteq> [] then
          breakWord l fontSize availableWidth (lines @ [wordBuff])
            (drop (length wordBuff) remainingWord)
        else
          breakWord l fontSize availableWidth (lines @ [[hd remainingWord]])
            (tl remainingWord))"
  by pat_completeness auto
termination
  by (relation "measure (\<lambda>(l, fontSize, availableWidth, lines, remainingWord).
        length remainingWord)") auto

declare breakWord.simps [simp del]

text \<open>The loop over the words of one text line; it returns \<open>lines\<close> and the open \<open>line\<close>.\<close>

fun wordLoop ::
  "Layouter \<Rightarrow> real \<Rightarrow> real \<Rightarrow> real \<Rightarrow> gostring list \<Rightarrow> gostring list \<Rightarrow> real
     \<Rightarrow> gostring list \<Rightarrow> gostring list \<times> gostring list" where
  "wordLoop l fontSize availableWidth spaceWidth lines line lineWidth [] = (lines, line)"
| "wordLoop l fontSize availableWidth spaceWidth lines line lineWidth (word # ws) =
     (let wordWidth = measureTextWidth l fontSize word in
      if wordWidth > availableWidth then
        let lines1 = (if line \<noteq> [] then lines @ [Join line 32] else lines);
            lines2 = breakWord l fontSize availableWidth lines1 word
        in wordLoop l fontSize availableWidth spaceWidth lines2 [] 0 ws
      else if lineWidth + wordWidth > availableWidth then
        let lines1 = (if line \<noteq> [] then lines @ [Join line 32] else lines)
        in wordLoop l fontSize availableWidth spaceWidth lines1 [word] wordWidth ws
      else
        wordLoop l fontSize availableWidth spaceWidth lines (line @ [word])
          (lineWidth + wordWidth + spaceWidth) ws)"

fun textLineLoop ::
  "Layouter \<Rightarrow> real \<Rightarrow> real \<Rightarrow> real \<Rightarrow> gostring list \<Rightarrow> gostring list \<Rightarrow> gostring list" where
  "textLineLoop l fontSize availableWidth spaceWidth lines [] = lines"
| "textLineLoop l fontSize availableWidth spaceWidth lines (t # ts) =
     (let textLine = TrimSpace t in
      if textLine = [] then textLineLoop l fontSize availableWidth spaceWidth lines ts
      else
        let r = wordLoop l fontSize availableWidth spaceWidth lines [] 0 (Fields textLine);
            lines1 = (if snd r \<noteq> [] then fst r @ [Join (snd r) 32] else fst r)
        in textLineLoop l fontSize availableWidth spaceWidth lines1 ts)"

text \<open>
  \<open>splitLines\<close>. The source returns a nil slice when no line was appended; the result
  \<open>[]\<close> stands for it.
\<close>

definition splitLines :: "Layouter \<Rightarrow> gostring \<Rightarrow> real \<Rightarrow> real \<Rightarrow> gostring list" where
  "splitLines l text fontSize availableWidth =
     textLineLoop l fontSize availableWidth (measureTextWidth l fontSize [32]) []
       (Split text 10)"

definition wrapText :: "Layouter \<Rightarrow> Widget \<Rightarrow> Widget" where
  "wrapText l w =
     (let a = attrs w;
          buf = (if Value a \<noteq> [] then
                   (case splitLines l (Value a) (CalcFontSize (Calculated a))
                           (InnerWidth (Calculated a)) of
                      [] \<Rightarrow> None
                    | ls \<Rightarrow> Some ls)
                 else Some []);
          lines = (if Wrap a then
                     (case buf of
                        None \<Rightarrow> Some []
                      | Some ls \<Rightarrow> if length ls > 0 then Some (take 1 ls) else Some [])
                   else buf);
          w1 = map_attrs (\<lambda>a. a\<lparr>ValueLines := lines\<rparr>) w
      in if Height a = 0 then
           recalculateFromInnerHeight
             (set_calc ((calc w1)\<lparr>InnerHeight :=
                 real (case lines of None \<Rightarrow> 0 | Some ls \<Rightarrow> length ls)
                   * CalcLineHeight (calc w1)\<rparr>) w1)
         else w1)"

fun reflowTexts :: "Layouter \<Rightarrow> Widget \<Rightarrow> Widget" where
  "reflowTexts l (Widget a cs cols ch cf) =
     (if (case ValueLines a of None \<Rightarrow> 0 | Some ls \<Rightarrow> length ls) > 0
      then wrapText l (Widget a cs cols ch cf)
      else Widget a (map (reflowTexts l) cs) cols ch cf)"

text \<open>\<open>initValueSize\<close> measures with the font size of the shared \<open>PdfLibDoc\<close>.\<close>

definition initValueSize :: "Layouter \<Rightarrow> Widget \<Rightarrow> Widget" where
  "initValueSize l w =
     (let a = attrs w;
          ls = (case ValueLines a of None \<Rightarrow> [] | Some ls \<Rightarrow> ls);
          c0 = Calculated a;
          c1 = (if Width a = 0 then
                  c0\<lparr>CalcWidth :=
                       fold (\<lambda>line maxWidth.
                               let width = MeasureTextWidth (pdLibDoc_FontSize l) line
                               in if width > maxWidth then width else maxWidth) ls 0\<rparr>
                else c0\<lparr>CalcWidth := Width a\<rparr>);
          c2 = (if InnerHeight c1 = 0 then
                  c1\<lparr>InnerHeight := real (length ls) * CalcLineHeight c1\<rparr>
                else c1)
      in recalculateFromInnerHeight (addjustCalculatedWidth (set_calc c2 w)))"

section \<open>Parsing of character data and numeric attributes (ast.go)\<close>

text \<open>
  A token of the XML library: character data, an element, or anything else (a comment,
  a directive). The element type is a parameter.
\<close>

datatype 'e Token = CharData gostring | Element 'e | OtherToken

definition splitClean :: "gostring \<Rightarrow> rune \<Rightarrow> gostring list" where
  "splitClean s sep = filter (\<lambda>cleaned. cleaned \<noteq> []) (map TrimSpace (Split s sep))"

text \<open>
  \<open>parseToken\<close>. \<open>parseElement\<close>, which the element case calls, is a parameter; it may set
  the header or footer of the page it is given, so it returns the page as well.
\<close>

definition parseToken ::
  "('e \<Rightarrow> Page \<Rightarrow> error + Widget option \<times> Page) \<Rightarrow> 'e Token \<Rightarrow> Page \<Rightarrow> bool
     \<Rightarrow> error + Widget option \<times> Page" where
  "parseToken parseElement tk page textAsWidget =
     (case tk of
        CharData text \<Rightarrow>
          if TrimSpace text = [] then Inr (None, page)
          else if textAsWidget then
            Inr (Some (Widget
                   (zeroAttrs\<lparr>Type := ''div'',
                              ValueLines := Some (splitClean text 10),
                              Option := Option (attrs (PageWidget page))\<rparr>)
                   [] [] None None),
                 page)
          else Inr (None, page)
      | Element t \<Rightarrow> parseElement t page
      | OtherToken \<Rightarrow> Inr (None, page))"

text \<open>
  The attributes of an element, in document order. \<open>getAttrValue\<close> is the library's
  \<open>SelectAttrValue\<close>: the value of the first attribute of that name, else the default.
\<close>

type_synonym Attrs = "(string \<times> string) list"

definition getAttrValue :: "Attrs \<Rightarrow> string \<Rightarrow> string \<Rightarrow> string" where
  "getAttrValue el name defaultValue =
     (case map_of el name of None \<Rightarrow> defaultValue | Some v \<Rightarrow> v)"

text \<open>
  \<open>strconv.ParseFloat(v, 64)\<close> is a parameter, returning the number and the error, if any.
  \<open>parseFloat\<close> keeps the number and drops the error.
\<close>

definition parseFloat :: "(string \<Rightarrow> 'f \<times> NumError option) \<Rightarrow> string \<Rightarrow> 'f" where
  "parseFloat ParseFloat v = fst (ParseFloat v)"

definition parseFloatAttr ::
  "(string \<Rightarrow> 'f \<times> NumError option) \<Rightarrow> Attrs \<Rightarrow> string \<Rightarrow> 'f \<Rightarrow> 'f" where
  "parseFloatAttr ParseFloat el name defaultValue =
     (let v = getAttrValue el name [] in
      if v = [] then defaultValue else parseFloat ParseFloat v)"

text \<open>
  What the library documents and does for a string that is not a well-formed number: the
  error is \<open>ErrSyntax\<close> and the number returned with it is 0.
\<close>

definition syntaxErrorGivesZero :: "(string \<Rightarrow> ('f::zero) \<times> NumError option) \<Rightarrow> bool" where
  "syntaxErrorGivesZero ParseFloat =
     (\<forall>s. snd (ParseFloat s) = Some ErrSyntax \<longrightarrow> fst (ParseFloat s) = 0)"

text \<open>A parser of unsigned decimal integers, an instance of such a function.\<close>

definition parseDigits :: "string \<Rightarrow> real \<times> NumError option" where
  "parseDigits s =
     (if s \<noteq> [] \<and> (\<forall>c \<in> set s. 48 \<le> (of_char c :: nat) \<and> (of_char c :: nat) \<le> 57)
      then (fold (\<lambda>c n. n * 10 + real ((of_char c :: nat) - 48)) s 0, None)
      else (0, Some ErrSyntax))"

text \<open>
  What three elements do with the number read. \<open>parseQR\<close> converts the size to an \<open>int\<close>,
  which truncates towards 0, and replaces a size of 0 by 150, the default it also passes
  to \<open>parseFloatAttr\<close>. \<open>parsePage\<close> replaces a width or height of 0, which \<open>parseWidget\<close>
  reads with the default 0, by that of the document.
\<close>

definition goInt :: "real \<Rightarrow> int" where
  "goInt f = (if f \<ge> 0 then \<lfloor>f\<rfloor> else \<lceil>f\<rceil>)"

definition parseQR_Size :: "(string \<Rightarrow> real \<times> NumError option) \<Rightarrow> Attrs \<Rightarrow> int" where
  "parseQR_Size ParseFloat el =
     (let size = goInt (parseFloatAttr ParseFloat el ''size'' 150)
      in if size = 0 then 150 else size)"

definition parsePage_Width ::
  "(string \<Rightarrow> real \<times> NumError option) \<Rightarrow> Attrs \<Rightarrow> real \<Rightarrow> real" where
  "parsePage_Width ParseFloat el docWidth =
     (let width = parseFloatAttr ParseFloat el ''width'' 0
      in if width = 0 then docWidth else width)"

definition parsePage_Height ::
  "(string \<Rightarrow> real \<times> NumError option) \<Rightarrow> Attrs \<Rightarrow> real \<Rightarrow> real" where
  "parsePage_Height ParseFloat el docHeight =
     (let height = parseFloatAttr ParseFloat el ''height'' 0
      in if height = 0 then docHeight else height)"

section \<open>Style inheritance and width distribution (layout.go)\<close>

definition HasSuffix :: "string \<Rightarrow> string \<Rightarrow> bool" where
  "HasSuffix s suffix =
     (length suffix \<le> length s \<and> drop (length s - length suffix) s = suffix)"

text \<open>
  \<open>initCalculatedInfo\<close>. Of the parent only its \<open>Calculated\<close> record is read; \<open>None\<close> is the
  nil parent of the document.
\<close>

fun initCalculatedInfo :: "Widget \<Rightarrow> CalculatedInfo option \<Rightarrow> Widget" where
  "initCalculatedInfo (Widget a cs cols ch cf) parent =
     (let c1 = (case parent of
                  Some pc \<Rightarrow>
                    zeroCalculated
                      \<lparr>CalcFontFamily :=
                         (if FontFamily a \<noteq> [] then FontFamily a else CalcFontFamily pc),
                       CalcFontSize :=
                         (if FontSize a \<noteq> 0 then FontSize a else CalcFontSize pc),
                       CalcLineHeight :=
                         (if LineHeight a \<noteq> 0 then LineHeight a else CalcLineHeight pc),
                       CalcColor := (if Color a \<noteq> None then Color a else CalcColor pc),
                       CalcBold := (Bold a \<or> CalcBold pc)\<rparr>
                | None \<Rightarrow>
                    zeroCalculated
                      \<lparr>CalcFontFamily := FontFamily a,
                       CalcFontSize := FontSize a,
                       CalcLineHeight := LineHeight a,
                       CalcColor := Color a,
                       CalcBold := Bold a\<rparr>);
          w1 = Widget (a\<lparr>Calculated := c1\<rparr>) cs cols ch cf;
          w2 = (if Width a \<noteq> 0
                then addjustCalculatedWidth (set_calc ((calc w1)\<lparr>CalcWidth := Width a\<rparr>) w1)
                else w1);
          w3 = (if Height a \<noteq> 0
                then addjustCalculatedHeight (set_calc ((calc w2)\<lparr>CalcHeight := Height a\<rparr>) w2)
                else w2);
          c4 = (calc w3)\<lparr>CalcDirection :=
                   (if Direction a = [] then ''column'' else Direction a)\<rparr>;
          c5 = (if CalcBold c4 \<and> \<not> HasSuffix (CalcFontFamily c4) ''Bold''
                then c4\<lparr>CalcFontFamily := CalcFontFamily c4 @ ''Bold''\<rparr>
                else c4)
      in Widget ((attrs w3)\<lparr>Calculated := c5\<rparr>)
           (map (\<lambda>child. initCalculatedInfo child (Some c5)) cs) cols ch cf)"

fun getOuterWidth :: "Widget \<Rightarrow> real" where
  "getOuterWidth (Widget a cs cols ch cf) =
     (if length cs = 0 then OuterWidth (Calculated a)
      else if CalcDirection (Calculated a) = ''row'' then
        (let width = sum_list (map getOuterWidth cs)
         in if Gap a > 0 then width + real (length cs - 1) * Gap a else width)
      else
        foldl (\<lambda>maxWidth w. if w > maxWidth then w else maxWidth) 0 (map getOuterWidth cs))"

text \<open>The first error of a list of results, or the list of the values.\<close>

fun sequenceE :: "(error + 'a) list \<Rightarrow> error + 'a list" where
  "sequenceE [] = Inr []"
| "sequenceE (x # xs) =
     (case x of
        Inl e \<Rightarrow> Inl e
      | Inr v \<Rightarrow> (case sequenceE xs of Inl e \<Rightarrow> Inl e | Inr vs \<Rightarrow> Inr (v # vs)))"

text \<open>
  \<open>adjustColumns\<close>. The source panics at the first row that has fewer cells than the
  first row. When the first row has no cells, the loops over the columns run over nothing
  and the table is returned as it is, whatever the quotient. With columns, the quotient
  \<open>tableWidth / totalWidth\<close> is infinite or NaN in the source when the column sizes sum to
  0, and the cells get widths that are not numbers; the model stops with \<open>NonFinite\<close>
  there. The two nested loops that compute \<open>columnSizes\<close> are written column by column.
\<close>

definition adjustColumns :: "Layouter \<Rightarrow> Widget \<Rightarrow> error + Widget" where
  "adjustColumns l table =
     (if length (Children table) = 0 then Inr table
      else
        let rows = Children table;
            columnCount = length (Children (rows ! 0))
        in if \<exists>row \<in> set rows. length (Children row) < columnCount
           then Inl (Panic ''invalid number of row cells'')
           else
             let columnSizes =
                   map (\<lambda>i. foldl (\<lambda>size row.
                                      let cell = Children row ! i;
                                          rowMax = (if Width (attrs cell) \<noteq> 0
                                                    then Width (attrs cell)
                                                    else getOuterWidth cell)
                                      in if rowMax > size then rowMax else size) 0 rows)
                       [0..<columnCount];
                 totalWidth = sum_list columnSizes;
                 tableWidth = InnerWidth (calc table)
             in if columnCount = 0 then Inr table
                else if totalWidth = 0 then Inl (NonFinite ''tableWidth / totalWidth'')
                else
                  let ratio = tableWidth / totalWidth in
                  if ratio = 1 then Inr table
                  else
                    let sizes = map (\<lambda>size. size * ratio) columnSizes;
                        adjustCell = (\<lambda>(i, cell).
                          if i < columnCount then
                            let cell1 = reflowTexts l (recalculateFromOuterWidth
                                          (set_calc ((calc cell)\<lparr>OuterWidth := sizes ! i\<rparr>) cell))
                            in if Align (attrs cell1) \<noteq> [] then
                                 set_Children
                                   (map (map_attrs (\<lambda>b. b\<lparr>Align := Align (attrs cell1)\<rparr>))
                                      (Children cell1)) cell1
                               else cell1
                          else cell)
                    in Inr (set_Children
                              (map (\<lambda>row. set_Children
                                             (map adjustCell (zip [0..<length (Children row)]
                                                                  (Children row))) row)
                                 rows) table))"

text \<open>The first statement of \<open>initWidgetsWidth\<close>: the widths of the widget itself.\<close>

definition initOwnWidth :: "Widget \<Rightarrow> real \<Rightarrow> Widget" where
  "initOwnWidth w parentWidth =
     (if Width (attrs w) = 0 then
        recalculateFromOuterWidth (set_calc ((calc w)\<lparr>OuterWidth := parentWidth\<rparr>) w)
      else if OuterWidth (calc w) > parentWidth then
        recalculateFromOuterWidth (set_calc ((calc w)\<lparr>OuterWidth := parentWidth\<rparr>) w)
      else addjustCalculatedWidth w)"

text \<open>
  \<open>initWidgetsWidth\<close>. A nil \<open>Children\<close> returns at once in the source; an empty list runs
  loops over nothing, and \<open>adjustColumns\<close> returns at once on it, so both are \<open>[]\<close> here.
  The children are distinct widgets, and the width given to one depends on the widths
  that all of them had before the loop.
\<close>

fun initWidgetsWidth :: "Layouter \<Rightarrow> Widget \<Rightarrow> real \<Rightarrow> error + Widget" where
  "initWidgetsWidth l (Widget a cs cols ch cf) parentWidth =
     (let w1 = initOwnWidth (Widget a cs cols ch cf) parentWidth;
          innerWidth = InnerWidth (calc w1);
          children =
            (if Direction a = ''row'' then
               let sumWidth0 = foldl (\<lambda>s child. s + OuterWidth (calc child)) 0 cs;
                   fixedItems = filter (\<lambda>child. Width (attrs child) \<noteq> 0) cs;
                   gap = Gap a * real_of_int (int (length cs) - 1);
                   sumWidth = (if gap > 0 then sumWidth0 + gap else sumWidth0)
               in if sumWidth < innerWidth then
                    let autoItems = filter (\<lambda>child. Width (attrs child) = 0) cs in
                    if length autoItems > 0 then
                      let remaining =
                            foldl (\<lambda>r item. r - OuterWidth (calc item)) innerWidth fixedItems
                              - gap;
                          itemWidth = remaining / real (length autoItems)
                      in sequenceE
                           (map (\<lambda>child. if Width (attrs child) = 0
                                          then initWidgetsWidth l child itemWidth
                                          else Inr child) cs)
                    else Inr cs
                  else
                    let remaining = innerWidth - gap;
                        itemWidth = remaining / real (length cs)
                    in sequenceE (map (\<lambda>child. initWidgetsWidth l child itemWidth) cs)
             else sequenceE (map (\<lambda>child. initWidgetsWidth l child innerWidth) cs))
      in case children of
           Inl e \<Rightarrow> Inl e
         | Inr cs1 \<Rightarrow>
             if Type a = ''table'' then adjustColumns l (set_Children cs1 w1)
             else Inr (set_Children cs1 w1))"

text \<open>
  \<open>initFixedSizes\<close>. \<open>initImageSizeWidget\<close>, which decodes the image, is a parameter. The
  argument \<open>parentWidth\<close> of the source is passed down and never read.
\<close>

fun initFixedSizes :: "Layouter \<Rightarrow> (Widget \<Rightarrow> Widget) \<Rightarrow> Widget \<Rightarrow> Widget" where
  "initFixedSizes l initImageSizeWidget (Widget a cs cols ch cf) =
     (if Type a = ''image'' \<or> Type a = ''qr'' then
        addjustCalculatedWidth (initImageSizeWidget (Widget a cs cols ch cf))
      else if Type a = ''table'' then
        Widget a (map (initFixedSizes l initImageSizeWidget) cs) cols
          (map_option (\<lambda>h. initValueSize l (initCalculatedInfo h (Some (Calculated a)))) ch)
          (map_option (\<lambda>f. initValueSize l (initCalculatedInfo f (Some (Calculated a)))) cf)
      else
        (let w1 = (if ValueLines a \<noteq> None then initValueSize l (Widget a cs cols ch cf)
                   else Widget a cs cols ch cf)
         in set_Children (map (initFixedSizes l initImageSizeWidget) cs) w1))"

section \<open>The box-metric relations of the specification\<close>


definition marginV :: "Widget \<Rightarrow> real" where
  "marginV w = (case Margin (attrs w) of None \<Rightarrow> 0 | Some m \<Rightarrow> Top m + Bottom m)"





section \<open>Scenarios\<close>

text \<open>The layouter that \<open>SetLayout\<close> builds: font size 7.7 and the formatter it is given.\<close>

definition newLayouter :: "(gostring \<Rightarrow> real option) option \<Rightarrow> Layouter" where
  "newLayouter f = \<lparr>pdLibDoc_FontSize = 7.7, formatter = f\<rparr>"

text \<open>
  The style that a page of a default document hands to its children: font roboto, size
  14, line height 14.
\<close>

definition pageStyle :: CalculatedInfo where
  "pageStyle =
     zeroCalculated\<lparr>CalcFontFamily := ''roboto'', CalcFontSize := 14, CalcLineHeight := 14,
                     CalcDirection := ''column''\<rparr>"

text \<open>
  Parsed widgets: a div with a declared width (0 for none) and no content, a div holding
  one line of text, and a div of direction row with children.
\<close>

definition emptyDiv :: "real \<Rightarrow> Widget" where
  "emptyDiv width = Widget (zeroAttrs\<lparr>Type := ''div'', Width := width\<rparr>) [] [] None None"

definition textDiv :: "string \<Rightarrow> Widget" where
  "textDiv s =
     Widget (zeroAttrs\<lparr>Type := ''div'', Value := str s, ValueLines := Some [str s]\<rparr>)
       [] [] None None"

definition rowDiv :: "Widget list \<Rightarrow> Widget" where
  "rowDiv cs = Widget (zeroAttrs\<lparr>Type := ''div'', Direction := ''row''\<rparr>) cs [] None None"

text \<open>
  The start of \<open>initWidgetSize\<close> for a child of a page: the style pass, the fixed sizes
  (no images here) and the width distribution.
\<close>

definition widthPasses :: "Widget \<Rightarrow> real \<Rightarrow> error + Widget" where
  "widthPasses w innerWidth =
     initWidgetsWidth (newLayouter None)
       (initFixedSizes (newLayouter None) (\<lambda>img. img) (initCalculatedInfo w (Some pageStyle)))
       innerWidth"

definition childOuterWidths :: "error + Widget \<Rightarrow> real list" where
  "childOuterWidths r =
     (case r of Inl e \<Rightarrow> [] | Inr w \<Rightarrow> map (\<lambda>c. OuterWidth (calc c)) (Children w))"




section \<open>Pagination (layout.go)\<close>

text \<open>
  \<open>copyPage\<close>. The fields not listed by the source keep their zero values; the deep
  clones of header, footer and \<open>Calculated\<close> are the values themselves.
\<close>

definition copyPage :: "Page \<Rightarrow> bool \<Rightarrow> Page" where
  "copyPage page copyReset =
     (let a = attrs (PageWidget page) in
      \<lparr>PageWidget =
         Widget (zeroAttrs\<lparr>Type := ''page'',
                            FontFamily := FontFamily a,
                            FontSize := FontSize a,
                            LineHeight := LineHeight a,
                            Color := Color a,
                            BackgroundColor := BackgroundColor a,
                            Padding := Padding a,
                            Gap := Gap a,
                            Direction := Direction a,
                            Bold := Bold a,
                            Align := Align a,
                            Calculated := Calculated a\<rparr>) [] [] None None,
       Header = Header page,
       Footer = Footer page,
       ResetPageNumbers = (if copyReset then ResetPageNumbers page else False)\<rparr>)"

fun resetY :: "Widget list \<Rightarrow> real \<Rightarrow> real \<Rightarrow> Widget list" where
  "resetY [] y gap = []"
| "resetY (w # ws) y gap =
     (if Y (attrs w) = 0 then
        let w1 = adjustCalculatedY (set_calc ((calc w)\<lparr>OuterY := y\<rparr>) w)
        in w1 # resetY ws (y + (OuterHeight (calc w1) + gap)) gap
      else w # resetY ws y gap)"

fun resetRowsY_loop :: "Widget list \<Rightarrow> real \<Rightarrow> Widget list" where
  "resetRowsY_loop [] y = []"
| "resetRowsY_loop (row # rs) y =
     (let row1 = adjustCalculatedY (set_calc ((calc row)\<lparr>OuterY := y\<rparr>) row)
      in row1 # resetRowsY_loop rs (y + OuterHeight (calc row1)))"

definition resetRowsY :: "Widget \<Rightarrow> Widget" where
  "resetRowsY w =
     (let w1 = adjustCalculatedY (set_calc ((calc w)\<lparr>OuterY := 0\<rparr>) w)
      in set_Children (resetRowsY_loop (Children w1) 0) w1)"

text \<open>\<open>setAlternateColor\<close> of layout.go: the rows from index 1 on, by the parity of the index.\<close>

definition setAlternateColor :: "Widget list \<Rightarrow> Color option \<Rightarrow> Widget list" where
  "setAlternateColor rows alternateColor =
     (if alternateColor = None then rows
      else
        map (\<lambda>(i, row).
               if i < 1 then row
               else if i mod 2 = 0 then
                 set_Children
                   (map (\<lambda>cell. if BackgroundColor (attrs cell) = None
                                 then map_attrs (\<lambda>a. a\<lparr>BackgroundColor := alternateColor\<rparr>) cell
                                 else cell) (Children row)) row
               else
                 set_Children
                   (map (map_attrs (\<lambda>a. a\<lparr>BackgroundColor := None\<rparr>)) (Children row)) row)
          (enumerate 0 rows))"

text \<open>
  \<open>getColumnSum\<close>. \<open>row.Children[column]\<close> panics in the source when the row has no such
  cell. A cell counts when it is not a header, has exactly one value line, the layouter
  has a formatter and the formatter parses the line.
\<close>

definition getColumnSum :: "Layouter \<Rightarrow> Widget list \<Rightarrow> int \<Rightarrow> error + real" where
  "getColumnSum l rows column =
     (if \<exists>row \<in> set rows. \<not> (0 \<le> column \<and> nat column < length (Children row))
      then Inl (Panic ''index out of range'')
      else
        Inr (foldl (\<lambda>total row.
                      let cell = Children row ! nat column in
                      if IsHeader (attrs cell) then total
                      else
                        (case ValueLines (attrs cell) of
                           Some [line] \<Rightarrow>
                             (case formatter l of
                                Some ParseNumber \<Rightarrow>
                                  (case ParseNumber line of
                                     Some v \<Rightarrow> total + v
                                   | None \<Rightarrow> total)
                              | None \<Rightarrow> total)
                         | _ \<Rightarrow> total)) 0 rows))"

text \<open>
  The state of the loop of \<open>splitTable\<close>: the pending rows, the clone being filled, the
  variables \<open>currentY\<close>, \<open>pageIndex\<close>, \<open>carryLast\<close> and \<open>pageBreak\<close>, and the clones that are
  complete, in page order (in the source each is reachable from the page it was put on).
\<close>

record SplitState =
  rows :: "Widget list"
  currentTable :: Widget
  currentY :: real
  pageIndex :: int
  carryLast :: "real option"
  filled :: "Widget list"
  pageBreak :: bool

text \<open>
  The part of the loop body that completes the clone being filled with the first \<open>index\<close>
  pending rows: alternate colours, page number, height, and the carry values when the
  table has a carry column. It returns the clone and the new \<open>carryLast\<close>. \<open>table\<close> is the
  clone of the table without rows that the source takes before the loop.
\<close>

definition fillClone ::
  "Layouter \<Rightarrow> Widget \<Rightarrow> SplitState \<Rightarrow> nat \<Rightarrow> error + Widget \<times> real option" where
  "fillClone l table st index =
     (let currentRows = setAlternateColor (take index (rows st))
                          (AlternateColor (attrs table));
          t1 = set_Children currentRows
                 (map_attrs (\<lambda>a. a\<lparr>PageNumber := pageIndex st\<rparr>) (currentTable st));
          totalHeight = foldl (\<lambda>h row. h + OuterHeight (calc row)) 0 currentRows;
          t2 = recalculateFromInnerHeight
                 (set_calc ((calc t1)\<lparr>InnerHeight := totalHeight\<rparr>) t1)
      in if CarryColumn (attrs table) \<ge> 0 then
           (case getColumnSum l currentRows (CarryColumn (attrs table)) of
              Inl e \<Rightarrow> Inl e
            | Inr columnSum \<Rightarrow>
                let nextValue =
                      (case carryLast st of None \<Rightarrow> 0 | Some v \<Rightarrow> v) + columnSum
                in Inr (map_attrs (\<lambda>a. a\<lparr>CarryLast := carryLast st,
                                            CarryNext := Some nextValue\<rparr>) t2,
                        Some nextValue))
         else Inr (t2, carryLast st))"

text \<open>
  The part of the loop body that opens the next clone: a copy of \<open>table\<close> holding a copy
  of the header row, when the table has columns, and the remaining rows, with its rows
  flowed from 0 and its page number set.
\<close>

definition nextClone :: "Widget \<Rightarrow> Widget option \<Rightarrow> Widget list \<Rightarrow> int \<Rightarrow> Widget" where
  "nextClone table headerRow remainingRows pageIndex1 =
     (let rows1 = (case headerRow of
                     Some h \<Rightarrow> h # remainingRows
                   | None \<Rightarrow> remainingRows);
          t4 = resetRowsY (recalculateFromInnerHeight (set_Children rows1 table))
      in map_attrs (\<lambda>a. a\<lparr>PageNumber := pageIndex1\<rparr>) t4)"

text \<open>
  The loop of \<open>splitTable\<close>. \<open>index\<close> counts the leading pending rows that fit; with none
  (\<open>!found\<close>) the loop ends. The loop need not end (a header that fits and a first data
  row that does not give the same state again), so its result is an \<open>option\<close>, \<open>None\<close> for
  a loop that runs forever.
\<close>

partial_function (option) splitTable_loop ::
  "Layouter \<Rightarrow> Widget \<Rightarrow> Widget option \<Rightarrow> real \<Rightarrow> SplitState \<Rightarrow> (error + SplitState) option" where
  "splitTable_loop l table headerRow innerHeight st =
     (let index = length (takeWhile
                    (\<lambda>row. \<not> (currentY st + OuterY (calc row) + OuterHeight (calc row)
                                  > innerHeight)) (rows st))
      in if index = 0 then Some (Inr st)
         else
           (case fillClone l table st index of
              Inl e \<Rightarrow> Some (Inl e)
            | Inr (t3, carryLast1) \<Rightarrow>
                if drop index (rows st) = [] then
                  Some (Inr (st\<lparr>rows := [], currentTable := t3, carryLast := carryLast1\<rparr>))
                else
                  let t5 = nextClone table headerRow (drop index (rows st)) (pageIndex st + 1)
                  in splitTable_loop l table headerRow innerHeight
                       \<lparr>rows = Children t5, currentTable = t5, currentY = 0,
                        pageIndex = pageIndex st + 1, carryLast = carryLast1,
                        filled = filled st @ [t3], pageBreak = True\<rparr>))"

declare splitTable_loop.simps [code]

text \<open>
  The result of \<open>splitTable\<close>. The source returns the last clone, the page it is on and
  \<open>pageBreak\<close>, and appends the pages it creates to the caller's list. Here the result
  lists all clones in page order: the first is the table that was passed in and stays on
  the page that was current, each further one is the only child of a new page
  \<open>copyPage(page, false)\<close>; the last is \<open>currentTable\<close> of the source. \<open>pending\<close>, which
  the source does not return, holds the rows that were pending when the loop ended: none
  when the rows were used up, the rows of the last clone when the loop ended because the
  first pending row did not fit.
\<close>

record splitTableResult =
  clones :: "Widget list"
  tablePageBreak :: bool
  pending :: "Widget list"

definition splitTable ::
  "Layouter \<Rightarrow> Widget \<Rightarrow> real \<Rightarrow> Page \<Rightarrow> (error + splitTableResult) option" where
  "splitTable l w currentY0 page =
     (let margin = (case Margin (attrs w) of None \<Rightarrow> 0 | Some m \<Rightarrow> Top m + Bottom m);
          innerHeight = InnerHeight (calc (PageWidget page)) - margin
      in if length (Columns w) > 0 \<and> length (Children w) = 0
         then Some (Inl (Panic ''index out of range''))
         else
           let headerRow = (if length (Columns w) > 0 then Some (Children w ! 0) else None);
               table = set_Children [] w
           in case splitTable_loop l table headerRow innerHeight
                     \<lparr>rows = Children w, currentTable = table, currentY = currentY0,
                      pageIndex = 0, carryLast = None, filled = [], pageBreak = False\<rparr> of
                None \<Rightarrow> None
              | Some (Inl e) \<Rightarrow> Some (Inl e)
              | Some (Inr st) \<Rightarrow>
                  Some (Inr \<lparr>clones = filled st
                                @ [map_attrs (\<lambda>a. a\<lparr>CarryNext := None\<rparr>) (currentTable st)],
                             tablePageBreak = pageBreak st,
                             pending = rows st\<rparr>))"

definition appendChild :: "Widget \<Rightarrow> Page \<Rightarrow> Page" where
  "appendChild w p = p\<lparr>PageWidget := set_Children (Children (PageWidget p) @ [w]) (PageWidget p)\<rparr>"

text \<open>\<open>currentPage.Children = append(currentPage.Children, w)\<close>: the current page is the last.\<close>

definition appendToCurrent :: "Widget \<Rightarrow> Page list \<Rightarrow> Page list" where
  "appendToCurrent w pages = butlast pages @ [appendChild w (last pages)]"

lemma length_resetY [simp]: "length (resetY ws y gap) = length ws"
  by (induction ws arbitrary: y) (simp_all add: Let_def)

text \<open>
  The body of the loop of \<open>splitPage\<close> for the child \<open>c = children[i]\<close> and the children
  \<open>cs\<close> after it. \<open>pages\<close> is the list built so far, whose last element is \<open>currentPage\<close>
  (nil when the list is empty). The result is the list of pages, \<open>currentY\<close> and the
  children after \<open>c\<close> as the body leaves them. A child is appended to the page before a
  table is split in the source and the table is then changed in place; here the first
  clone is appended after the split.
\<close>

definition splitPage_body ::
  "Layouter \<Rightarrow> Page \<Rightarrow> Page list \<Rightarrow> real \<Rightarrow> Widget \<Rightarrow> Widget list
     \<Rightarrow> (error + Page list \<times> real \<times> Widget list) option" where
  "splitPage_body l page pages currentY0 c cs =
     (let pageBottom = InnerHeight (calc (PageWidget page));
          gap = Gap (attrs (PageWidget page));
          fresh = (pages = [] \<or> currentY0 \<ge> pageBottom);
          pages1 = (if fresh then pages @ [copyPage page True] else pages);
          currentY1 = (if fresh then 0 else currentY0);
          children1 = (if fresh then resetY (c # cs) 0 gap else c # cs);
          bottom = currentY1 + OuterHeight (calc (hd children1));
          moved = (length (Children (PageWidget (last pages1))) > 0
                   \<and> Type (attrs (hd children1)) \<noteq> ''table'' \<and> bottom > pageBottom);
          pages2 = (if moved then pages1 @ [copyPage page False] else pages1);
          currentY2 = (if moved then 0 else currentY1);
          children2 = (if moved then resetY children1 0 gap else children1);
          w = hd children2;
          rest = tl children2
      in if Type (attrs w) = ''table'' \<and> bottom + BreakMargin (attrs w) > pageBottom then
           (case splitTable l w currentY2 page of
              None \<Rightarrow> None
            | Some (Inl e) \<Rightarrow> Some (Inl e)
            | Some (Inr result) \<Rightarrow>
                let pages3 = appendToCurrent (hd (clones result)) pages2
                               @ map (\<lambda>t. appendChild t (copyPage page False))
                                   (tl (clones result));
                    currentY3 = 0 + OuterHeight (calc (last (clones result)))
                                  + (if gap > 0 then gap else 0);
                    rest3 = (if tablePageBreak result then resetY rest currentY3 gap else rest)
                in Some (Inr (pages3, currentY3, rest3)))
         else
           Some (Inr (appendToCurrent w pages2,
                      currentY2 + OuterHeight (calc w) + (if gap > 0 then gap else 0),
                      rest)))"

lemma splitPage_body_length:
  "splitPage_body l page pages currentY0 c cs = Some (Inr (pages1, y1, rest))
     \<Longrightarrow> length rest = length cs"
  unfolding splitPage_body_def Let_def
  by (auto simp del: resetY.simps split: if_splits option.splits sum.splits)

function splitPage_loop ::
  "Layouter \<Rightarrow> Page \<Rightarrow> Page list \<Rightarrow> real \<Rightarrow> Widget list \<Rightarrow> (error + Page list) option" where
  "splitPage_loop l page pages currentY0 [] = Some (Inr pages)"
| "splitPage_loop l page pages currentY0 (c # cs) =
     (case splitPage_body l page pages currentY0 c cs of
        None \<Rightarrow> None
      | Some (Inl e) \<Rightarrow> Some (Inl e)
      | Some (Inr (pages1, currentY1, rest)) \<Rightarrow> splitPage_loop l page pages1 currentY1 rest)"
  by pat_completeness auto
termination
  by (relation "measure (\<lambda>(l, page, pages, currentY0, children). length children)")
     (auto dest: splitPage_body_length)

declare splitPage_loop.simps [simp del]

text \<open>
  \<open>splitPage\<close>. \<open>sort.Slice\<close> is modelled by the stable insertion sort; the library sorts
  slices of at most 12 elements by insertion and promises no stability beyond that.
\<close>

definition splitPage :: "Layouter \<Rightarrow> Page \<Rightarrow> (error + Page list) option" where
  "splitPage l page =
     splitPage_loop l page [] 0
       (sort_key (\<lambda>w. OuterY (calc w)) (Children (PageWidget page)))"

text \<open>
  Widgets as \<open>splitPage\<close> finds them: a div with a declared \<open>y\<close> (0 for none), the outer y
  that the position pass gave it, and its outer height; and a page of a given inner
  height with such children.
\<close>

definition placedDiv :: "real \<Rightarrow> real \<Rightarrow> real \<Rightarrow> Widget" where
  "placedDiv declaredY outerY outerHeight =
     Widget (zeroAttrs\<lparr>Type := ''div'', Y := declaredY, Height := outerHeight,
                         Calculated := pageStyle\<lparr>OuterY := outerY, InnerY := outerY,
                                                    CalcY := outerY, CalcHeight := outerHeight,
                                                    OuterHeight := outerHeight,
                                                    InnerHeight := outerHeight\<rparr>\<rparr>)
       [] [] None None"

definition pageOf :: "real \<Rightarrow> Widget list \<Rightarrow> Page" where
  "pageOf innerHeight cs =
     \<lparr>PageWidget =
        Widget (zeroAttrs\<lparr>Type := ''page'', Height := innerHeight,
                            Calculated := pageStyle\<lparr>CalcHeight := innerHeight,
                                                       OuterHeight := innerHeight,
                                                       InnerHeight := innerHeight\<rparr>\<rparr>)
          cs [] None None,
      Header = None, Footer = None, ResetPageNumbers = False\<rparr>"

text \<open>For each output page, the outer y and outer height of each of its children.\<close>

definition pageLayout :: "(error + Page list) option \<Rightarrow> (real \<times> real) list list" where
  "pageLayout r =
     (case r of
        Some (Inr pages) \<Rightarrow>
          map (\<lambda>p. map (\<lambda>c. (OuterY (calc c), OuterHeight (calc c)))
                      (Children (PageWidget p))) pages
      | _ \<Rightarrow> [])"

text \<open>
  The outer y that a flow from \<open>y\<close> with a gap gives to the child at index \<open>i\<close>: the outer
  heights and gaps of the children before it, those with a declared \<open>y\<close> left out.
\<close>

definition flowY :: "Widget list \<Rightarrow> real \<Rightarrow> real \<Rightarrow> nat \<Rightarrow> real" where
  "flowY ws y gap i =
     y + sum_list (map (\<lambda>w. OuterHeight (calc w) + gap)
                     (filter (\<lambda>w. Y (attrs w) = 0) (take i ws)))"

text \<open>
  What one row adds to the carry of a column, and the carry sum of a list of rows, as
  \<open>getColumnSum\<close> counts them: a header cell, a cell with no or several value lines, a
  missing formatter and a line that the formatter rejects count as 0.
\<close>

definition rowCarryValue :: "Layouter \<Rightarrow> int \<Rightarrow> Widget \<Rightarrow> real" where
  "rowCarryValue l column row =
     (let cell = Children row ! nat column in
      if IsHeader (attrs cell) then 0
      else
        (case ValueLines (attrs cell) of
           Some [line] \<Rightarrow>
             (case formatter l of
                Some ParseNumber \<Rightarrow> (case ParseNumber line of Some v \<Rightarrow> v | None \<Rightarrow> 0)
              | None \<Rightarrow> 0)
         | _ \<Rightarrow> 0))"

definition carrySum :: "Layouter \<Rightarrow> int \<Rightarrow> Widget \<Rightarrow> real" where
  "carrySum l column clone = sum_list (map (rowCarryValue l column) (Children clone))"

definition carryValue :: "real option \<Rightarrow> real" where
  "carryValue c = (case c of None \<Rightarrow> 0 | Some v \<Rightarrow> v)"

text \<open>A formatter that reads unsigned decimal integers.\<close>

definition digitsFormatter :: "gostring \<Rightarrow> real option" where
  "digitsFormatter s =
     (if s \<noteq> [] \<and> (\<forall>c \<in> set s. 48 \<le> c \<and> c \<le> 57)
      then Some (foldl (\<lambda>n c. n * 10 + real (c - 48)) 0 s)
      else None)"

text \<open>
  Tables as \<open>splitTable\<close> finds them: a cell with its value lines, a row of cells with its
  outer y and outer height, and a table without declared columns, with its carry column
  (-1 for none), alternate colour and rows.
\<close>

definition cellOf :: "string list \<Rightarrow> Color option \<Rightarrow> Widget" where
  "cellOf ls bg =
     Widget (zeroAttrs\<lparr>Type := ''cell'', Direction := ''row'', BackgroundColor := bg,
                         ValueLines := Some (map str ls),
                         Calculated := pageStyle\<lparr>CalcDirection := ''row''\<rparr>\<rparr>)
       [] [] None None"

definition rowOf :: "real \<Rightarrow> real \<Rightarrow> Widget list \<Rightarrow> Widget" where
  "rowOf outerY outerHeight cells =
     Widget (zeroAttrs\<lparr>Type := ''row'', Direction := ''row'',
                         Calculated := pageStyle\<lparr>CalcDirection := ''row'', OuterY := outerY,
                                                    InnerY := outerY, CalcY := outerY,
                                                    CalcHeight := outerHeight,
                                                    OuterHeight := outerHeight,
                                                    InnerHeight := outerHeight\<rparr>\<rparr>)
       cells [] None None"

definition tableOf :: "int \<Rightarrow> Color option \<Rightarrow> Widget list \<Rightarrow> Widget" where
  "tableOf carryColumn alternateColor rs =
     Widget (zeroAttrs\<lparr>Type := ''table'', CarryColumn := carryColumn,
                         AlternateColor := alternateColor,
                         Calculated := pageStyle\<lparr>
                           CalcHeight := sum_list (map (\<lambda>r. OuterHeight (calc r)) rs),
                           OuterHeight := sum_list (map (\<lambda>r. OuterHeight (calc r)) rs),
                           InnerHeight := sum_list (map (\<lambda>r. OuterHeight (calc r)) rs)\<rparr>\<rparr>)
       rs [] None None"

text \<open>
  Of each clone of a split: the background colours of its cells, row by row, and its
  carry values.
\<close>

definition cloneColors :: "(error + splitTableResult) option \<Rightarrow> Color option list list list" where
  "cloneColors r =
     (case r of
        Some (Inr res) \<Rightarrow>
          map (\<lambda>t. map (\<lambda>row. map (\<lambda>cell. BackgroundColor (attrs cell)) (Children row))
                      (Children t)) (clones res)
      | _ \<Rightarrow> [])"

definition cloneCarries ::
  "(error + splitTableResult) option \<Rightarrow> (real option \<times> real option) list" where
  "cloneCarries r =
     (case r of
        Some (Inr res) \<Rightarrow> map (\<lambda>t. (CarryLast (attrs t), CarryNext (attrs t))) (clones res)
      | _ \<Rightarrow> [])"

definition grey :: Color where
  "grey = \<lparr>R = 238, G = 238, B = 238\<rparr>"

text \<open>
  The running total that the clones \<open>ds\<close> hand on: nothing when there is none, else the
  sum of their carry sums. \<open>carryChain\<close>: each clone's \<open>CarryLast\<close> is the total handed on
  by the clones before it, and its \<open>CarryNext\<close> the total including its own rows.
\<close>

definition carryAfter :: "Layouter \<Rightarrow> int \<Rightarrow> Widget list \<Rightarrow> real option" where
  "carryAfter l column ds =
     (if ds = [] then None else Some (sum_list (map (carrySum l column) ds)))"

definition carryChain :: "Layouter \<Rightarrow> int \<Rightarrow> Widget list \<Rightarrow> bool" where
  "carryChain l column ds =
     (\<forall>i < length ds.
        CarryLast (attrs (ds ! i)) = carryAfter l column (take i ds)
        \<and> CarryNext (attrs (ds ! i)) = carryAfter l column (take (Suc i) ds))"

text \<open>
  Tables to split from 0 on a page of inner height 100, with the formatter of decimal
  digits: one whose first carry cell holds the two value lines 1 and 2, and one whose
  second row, 200 high, has room on no page.
\<close>

definition twoLineTable :: Widget where
  "twoLineTable =
     tableOf 0 None
       [rowOf 0 60 [cellOf [''1'', ''2''] None], rowOf 60 60 [cellOf [''5''] None]]"

definition tallRowTable :: Widget where
  "tallRowTable =
     tableOf 0 (Some grey)
       [rowOf 0 60 [cellOf [''7''] None], rowOf 60 200 [cellOf [''5''] None],
        rowOf 260 20 [cellOf [''3''] (Some grey)]]"

definition splitOn100 :: "Widget \<Rightarrow> (error + splitTableResult) option" where
  "splitOn100 w = splitTable (newLayouter (Some digitsFormatter)) w 0 (pageOf 100 [w])"

section \<open>Page numbers (layout.go)\<close>

text \<open>
  \<open>strings.ReplaceAll\<close> of the Go library, on runes: with a non-empty \<open>old\<close> the occurrences
  are taken leftmost first and do not overlap; with an empty \<open>old\<close> the replacement is put
  before every rune and at the end. The placeholders are ASCII, so that replacing on the
  runes of a valid UTF-8 string is replacing on its bytes.
\<close>

function ReplaceAll :: "gostring \<Rightarrow> gostring \<Rightarrow> gostring \<Rightarrow> gostring" where
  "ReplaceAll s old new =
     (if old = [] then new @ concat (map (\<lambda>c. c # new) s)
      else if s = [] then []
      else if take (length old) s = old then new @ ReplaceAll (drop (length old) s) old new
      else hd s # ReplaceAll (tl s) old new)"
  by pat_completeness auto
termination
  by (relation "measure (\<lambda>(s, old, new). length s)") auto

declare ReplaceAll.simps [simp del]

text \<open>\<open>fmt.Sprintf("%d", n)\<close> for a number that is not negative.\<close>

fun Sprintf_d :: "nat \<Rightarrow> gostring" where
  "Sprintf_d n = (if n < 10 then [48 + n] else Sprintf_d (n div 10) @ [48 + n mod 10])"

declare Sprintf_d.simps [simp del]

text \<open>The two replacements that \<open>interpolatePageNumbers\<close> makes in a line.\<close>

definition interpolateLine :: "gostring \<Rightarrow> gostring \<Rightarrow> gostring \<Rightarrow> gostring" where
  "interpolateLine page pages line =
     ReplaceAll (ReplaceAll line (str ''{page}'') page) (str ''{pages}'') pages"

fun interpolatePageNumbers :: "Widget \<Rightarrow> gostring \<Rightarrow> gostring \<Rightarrow> Widget" where
  "interpolatePageNumbers (Widget a cs cols ch cf) page pages =
     (case ValueLines a of
        Some ls \<Rightarrow>
          Widget (a\<lparr>ValueLines := Some (map (interpolateLine page pages) ls)\<rparr>) cs cols ch cf
      | None \<Rightarrow>
          Widget a (map (\<lambda>child. interpolatePageNumbers child page pages) cs) cols ch cf)"

text \<open>
  \<open>setPageNumbers\<close>: the loop that forms the groups, with its index \<open>i\<close>, the groups closed
  so far and the current group; the groups; the body of the loop over a group, for the
  page at index \<open>i\<close> of the group; and the pages of the document after the call, which are
  the pages of the groups in their order.
\<close>

fun groupLoop ::
  "Page list \<Rightarrow> nat \<Rightarrow> Page list list \<Rightarrow> Page list \<Rightarrow> Page list list \<times> Page list"
where
  "groupLoop [] i groups currentGroup = (groups, currentGroup)"
| "groupLoop (page # rest) i groups currentGroup =
     (if ResetPageNumbers page \<or> i = 0
      then groupLoop rest (i + 1)
             (if i > 0 \<and> length currentGroup > 0 then groups @ [currentGroup] else groups)
             ([] @ [page])
      else groupLoop rest (i + 1) groups (currentGroup @ [page]))"

definition pageGroups :: "Page list \<Rightarrow> Page list list" where
  "pageGroups pages =
     (case groupLoop pages 0 [] [] of
        (groups, currentGroup) \<Rightarrow>
          if length currentGroup > 0 then groups @ [currentGroup] else groups)"

definition numberPage :: "gostring \<Rightarrow> gostring \<Rightarrow> Page \<Rightarrow> Page" where
  "numberPage current totalPages page =
     page\<lparr>Header := (case Header page of
                       None \<Rightarrow> None
                     | Some h \<Rightarrow> Some (interpolatePageNumbers h current totalPages)),
          Footer := (case Footer page of
                       None \<Rightarrow> None
                     | Some f \<Rightarrow> Some (interpolatePageNumbers f current totalPages))\<rparr>"

definition numberGroup :: "Page list \<Rightarrow> Page list" where
  "numberGroup pageGroup =
     map (\<lambda>i. numberPage (Sprintf_d (i + 1)) (Sprintf_d (length pageGroup)) (pageGroup ! i))
       [0..<length pageGroup]"

definition setPageNumbers :: "Page list \<Rightarrow> Page list" where
  "setPageNumbers pages = concat (map numberGroup (pageGroups pages))"

text \<open>
  The widget reached from a widget by a path of child indices, and whether a widget on the
  path, the last one apart, has value lines of its own.
\<close>

fun subwidget :: "nat list \<Rightarrow> Widget \<Rightarrow> Widget option" where
  "subwidget [] w = Some w"
| "subwidget (i # p) w =
     (if i < length (Children w) then subwidget p (Children w ! i) else None)"

fun covered :: "nat list \<Rightarrow> Widget \<Rightarrow> bool" where
  "covered [] w = False"
| "covered (i # p) w =
     (ValueLines (attrs w) \<noteq> None \<or> (i < length (Children w) \<and> covered p (Children w ! i)))"

text \<open>
  Three output pages, the third with \<open>resetPageNumbers\<close>, with a header that holds its text
  in a child and a footer that is a text; and a page whose header has a text of its own and
  a child with a text.
\<close>

definition numberedPage :: "bool \<Rightarrow> Page" where
  "numberedPage reset =
     (pageOf 842 [])\<lparr>Header := Some (rowDiv [textDiv ''Page {page} of {pages}'']),
                      Footer := Some (textDiv ''{page}/{pages}''),
                      ResetPageNumbers := reset\<rparr>"

definition numberedPages :: "Page list" where
  "numberedPages = [numberedPage False, numberedPage False, numberedPage True]"

definition nestedHeaderPage :: Page where
  "nestedHeaderPage =
     (pageOf 842 [])\<lparr>Header :=
        Some (Widget (zeroAttrs\<lparr>Type := ''div'', Value := str ''Page {page}'',
                                  ValueLines := Some [str ''Page {page}'']\<rparr>)
                [textDiv ''of {pages}''] [] None None)\<rparr>"

text \<open>
  The value lines of the widget at a path below a header or footer that may be nil, and
  whether a widget above it on the path has value lines of its own.
\<close>

definition linesAt :: "nat list \<Rightarrow> Widget option \<Rightarrow> gostring list option" where
  "linesAt p h =
     (case h of
        None \<Rightarrow> None
      | Some w \<Rightarrow> (case subwidget p w of None \<Rightarrow> None | Some v \<Rightarrow> ValueLines (attrs v)))"

definition coveredAt :: "nat list \<Rightarrow> Widget option \<Rightarrow> bool" where
  "coveredAt p h = (case h of None \<Rightarrow> False | Some w \<Rightarrow> covered p w)"

text \<open>
  When a split uses up the rows. \<open>splitInnerHeight\<close> is the inner height that \<open>splitTable\<close>
  computes. \<open>rowsHaveRoom\<close>: the table has rows, its first row has room below \<open>y\<close>, where
  the table starts, and on a page of its own every row has room, after the header row
  when the table has columns (its first row is the header row then). \<open>rowsHaveCell\<close>:
  every row has a cell in the carry column.
\<close>

definition splitInnerHeight :: "Widget \<Rightarrow> Page \<Rightarrow> real" where
  "splitInnerHeight w page = InnerHeight (calc (PageWidget page)) - marginV w"

definition rowsHaveRoom :: "Widget \<Rightarrow> real \<Rightarrow> real \<Rightarrow> bool" where
  "rowsHaveRoom w y h =
     (Children w \<noteq> []
      \<and> y + OuterY (calc (hd (Children w))) + OuterHeight (calc (hd (Children w))) \<le> h
      \<and> (if Columns w = [] then \<forall>row \<in> set (Children w). OuterHeight (calc row) \<le> h
         else OuterHeight (calc (hd (Children w))) \<le> h
              \<and> (\<forall>row \<in> set (tl (Children w)).
                    OuterHeight (calc (hd (Children w))) + OuterHeight (calc row) \<le> h)))"

definition rowsHaveCell :: "Widget \<Rightarrow> bool" where
  "rowsHaveCell w =
     (\<forall>row \<in> set (Children w). nat (CarryColumn (attrs w)) < length (Children row))"

text \<open>
  Two properties of a state of the loop of \<open>splitTable\<close>. \<open>splitInv\<close>: there are pending
  rows, each with a cell in the carry column, the first has room below \<open>currentY\<close>, and
  every row has room on a page of its own, after the header row if there is one.
  \<open>splitNormal\<close>: the pending rows are those of a clone opened by the loop, flowed from 0
  with the header row first.
\<close>

definition splitInv :: "Widget \<Rightarrow> Widget option \<Rightarrow> real \<Rightarrow> SplitState \<Rightarrow> bool" where
  "splitInv table headerRow h st =
     (rows st \<noteq> []
      \<and> (\<forall>row \<in> set (rows st). nat (CarryColumn (attrs table)) < length (Children row))
      \<and> currentY st + OuterY (calc (hd (rows st))) + OuterHeight (calc (hd (rows st))) \<le> h
      \<and> (case headerRow of
           None \<Rightarrow> \<forall>row \<in> set (rows st). OuterHeight (calc row) \<le> h
         | Some hr \<Rightarrow>
             nat (CarryColumn (attrs table)) < length (Children hr)
             \<and> OuterHeight (calc hr) \<le> h
             \<and> (\<forall>row \<in> set (tl (rows st)). OuterHeight (calc hr) + OuterHeight (calc row) \<le> h)))"

definition splitNormal :: "Widget option \<Rightarrow> SplitState \<Rightarrow> bool" where
  "splitNormal headerRow st =
     (currentY st = 0
      \<and> OuterY (calc (rows st ! 0)) = 0
      \<and> (1 < length (rows st)
           \<longrightarrow> OuterY (calc (rows st ! 1)) = OuterHeight (calc (rows st ! 0)))
      \<and> (case headerRow of
           None \<Rightarrow> True
         | Some hr \<Rightarrow> OuterHeight (calc (rows st ! 0)) = OuterHeight (calc hr)))"

text \<open>
  Tables as the parser builds them when a column declares the carry: the columns, and
  their header row, of header cells, before the rows. Scenario S6 with whole numbers:
  the amounts 10, 20, 30 and 40 in rows 40 high below a header row 20 high; and a table
  whose second amount is in a row 200 high.
\<close>

definition headerCellOf :: "string \<Rightarrow> Widget" where
  "headerCellOf s = map_attrs (\<lambda>a. a\<lparr>IsHeader := True, Bold := True\<rparr>) (cellOf [s] None)"

definition withColumns :: "Widget list \<Rightarrow> Widget \<Rightarrow> Widget" where
  "withColumns cols t = Widget (attrs t) (Children t) cols (CarryHeader t) (CarryFooter t)"

definition headedCarryTable :: Widget where
  "headedCarryTable =
     withColumns [cellOf [''Amount''] None]
       (tableOf 0 None
          [rowOf 0 20 [headerCellOf ''Amount''],
           rowOf 20 40 [cellOf [''10''] None], rowOf 60 40 [cellOf [''20''] None],
           rowOf 100 40 [cellOf [''30''] None], rowOf 140 40 [cellOf [''40''] None]])"

definition headedTallRowTable :: Widget where
  "headedTallRowTable =
     withColumns [cellOf [''Amount''] None]
       (tableOf 0 None
          [rowOf 0 20 [headerCellOf ''Amount''],
           rowOf 20 60 [cellOf [''7''] None], rowOf 80 200 [cellOf [''5''] None]])"

text \<open>
  Pending rows on which the loop of \<open>splitTable\<close> makes no progress: they are flowed from
  0, the first is as high as the header row \<open>hr\<close> and has room on a page of height \<open>h\<close>,
  the second has no room below it, and every row has a cell in the carry column.
\<close>

definition stuckRows :: "Widget \<Rightarrow> int \<Rightarrow> real \<Rightarrow> Widget list \<Rightarrow> bool" where
  "stuckRows hr column h rs =
     (2 \<le> length rs
      \<and> OuterY (calc (rs ! 0)) = 0
      \<and> OuterHeight (calc (rs ! 0)) = OuterHeight (calc hr)
      \<and> OuterHeight (calc hr) \<le> h
      \<and> OuterY (calc (rs ! 1)) = OuterHeight (calc hr)
      \<and> OuterHeight (calc hr) + OuterHeight (calc (rs ! 1)) > h
      \<and> nat column < length (Children hr)
      \<and> (\<forall>row \<in> set rs. nat column < length (Children row)))"

section \<open>Theorems\<close>

lemma isHexDigit_digitVal:
  assumes "isHexDigit c"
  shows "digitVal c = Some (nat (hexValue c))" and "0 \<le> hexValue c" and "hexValue c < 16"
    and "c \<noteq> CHR ''-''" and "c \<noteq> CHR ''+''"
proof -
  define n where "n = (of_char c :: nat)"
  have r: "(48 \<le> n \<and> n \<le> 57) \<or> (97 \<le> n \<and> n \<le> 102) \<or> (65 \<le> n \<and> n \<le> 70)"
    using assms by (simp add: isHexDigit_def n_def Let_def)
  show "digitVal c = Some (nat (hexValue c))"
    using r by (auto simp add: digitVal_def hexValue_def Let_def n_def [symmetric])
  show "0 \<le> hexValue c" "hexValue c < 16"
    using r by (auto simp add: hexValue_def Let_def n_def [symmetric])
  have "n \<noteq> 45" "n \<noteq> 43" using r by auto
  then show "c \<noteq> CHR ''-''" "c \<noteq> CHR ''+''"
    by (auto simp add: n_def)
qed

lemma parseHex_two_digits:
  assumes "isHexDigit a" "isHexDigit b"
  shows "parseHex [a, b] = 16 * hexValue a + hexValue b"
proof -
  note A = isHexDigit_digitVal [OF assms(1)]
  note B = isHexDigit_digitVal [OF assms(2)]
  have na: "nat (hexValue a) < 16" and nb: "nat (hexValue b) < 16"
    using A(2,3) B(2,3) by auto
  have u: "ParseUint [a, b] 16 32 = (nat (hexValue a) * 16 + nat (hexValue b), None)"
    using na nb by (simp add: ParseUint_def A(1) B(1))
  show ?thesis
    using A(2,3,4,5) B(2,3) na nb
    by (simp add: parseHex_def ParseInt_def u Let_def)
qed

lemma byteToString_hex: "isHexDigit c \<Longrightarrow> byteToString c = [c]"
  by (auto simp add: isHexDigit_def byteToString_def Let_def)

lemma parseColor_None_iff:
  "parseColor v = None \<longleftrightarrow> \<not> HasPrefix v ''#'' \<or> (length v - 1 \<noteq> 3 \<and> length v - 1 \<noteq> 6)"
  by (simp add: parseColor_def Let_def)

text \<open>
  C8. Colour parsing yields a colour exactly for a leading \<open>#\<close> followed by three or six
  bytes, and no colour for every other string; on \<open>#RGB\<close> each hexadecimal digit is
  doubled, on \<open>#RRGGBB\<close> each pair of digits is one channel.
\<close>

theorem parseColor_forms:
  "(parseColor v = None \<longleftrightarrow>
      \<not> HasPrefix v ''#'' \<or> (length v - 1 \<noteq> 3 \<and> length v - 1 \<noteq> 6))
   \<and> (isHexDigit r \<and> isHexDigit g \<and> isHexDigit b \<longrightarrow>
        parseColor [CHR ''#'', r, g, b] =
          Some \<lparr>R = 17 * hexValue r, G = 17 * hexValue g, B = 17 * hexValue b\<rparr>)
   \<and> (isHexDigit r1 \<and> isHexDigit r2 \<and> isHexDigit g1 \<and> isHexDigit g2
        \<and> isHexDigit b1 \<and> isHexDigit b2 \<longrightarrow>
        parseColor [CHR ''#'', r1, r2, g1, g2, b1, b2] =
          Some \<lparr>R = 16 * hexValue r1 + hexValue r2,
                G = 16 * hexValue g1 + hexValue g2,
                B = 16 * hexValue b1 + hexValue b2\<rparr>)"
proof (intro conjI impI)
  show "parseColor v = None \<longleftrightarrow>
      \<not> HasPrefix v ''#'' \<or> (length v - 1 \<noteq> 3 \<and> length v - 1 \<noteq> 6)"
    by (rule parseColor_None_iff)
next
  assume h: "isHexDigit r \<and> isHexDigit g \<and> isHexDigit b"
  then show "parseColor [CHR ''#'', r, g, b] =
          Some \<lparr>R = 17 * hexValue r, G = 17 * hexValue g, B = 17 * hexValue b\<rparr>"
    by (simp add: parseColor_def HasPrefix_def byteToString_hex parseHex_two_digits)
next
  assume h: "isHexDigit r1 \<and> isHexDigit r2 \<and> isHexDigit g1 \<and> isHexDigit g2
        \<and> isHexDigit b1 \<and> isHexDigit b2"
  then show "parseColor [CHR ''#'', r1, r2, g1, g2, b1, b2] =
          Some \<lparr>R = 16 * hexValue r1 + hexValue r2,
                G = 16 * hexValue g1 + hexValue g2,
                B = 16 * hexValue b1 + hexValue b2\<rparr>"
    by (simp add: parseColor_def HasPrefix_def parseHex_two_digits)
qed

theorem parseColor_forms_witness:
  "parseColor ''red'' = None \<and> parseColor ''#ff00'' = None
   \<and> parseColor ''#222'' = Some \<lparr>R = 34, G = 34, B = 34\<rparr>
   \<and> parseColor ''#fA3b07'' = Some \<lparr>R = 250, G = 59, B = 7\<rparr>"
proof -
  have n1: "parseColor ''red'' = None"
    using parseColor_forms [of "''red''"] by (simp add: HasPrefix_def)
  have n2: "parseColor ''#ff00'' = None"
    using parseColor_forms [of "''#ff00''"] by (simp add: HasPrefix_def)
  have c3: "parseColor ''#222'' = Some \<lparr>R = 34, G = 34, B = 34\<rparr>"
    using parseColor_forms [of _ "CHR ''2''" "CHR ''2''" "CHR ''2''"]
    by (simp add: isHexDigit_def hexValue_def Let_def)
  have c6: "parseColor ''#fA3b07'' = Some \<lparr>R = 250, G = 59, B = 7\<rparr>"
    using parseColor_forms [of _ _ _ _ "CHR ''f''" "CHR ''A''" "CHR ''3''" "CHR ''b''"
        "CHR ''0''" "CHR ''7''"]
    by (simp add: isHexDigit_def hexValue_def Let_def)
  from n1 n2 c3 c6 show ?thesis by simp
qed

subsection \<open>Wrapping\<close>

text \<open>
  C5. The wrap pass on the text \<open>aaaaaa bbbbb ccccc\<close> at font size 20 (9 per byte) and
  inner width 95 produces the line \<open>bbbbb ccccc\<close>, which is 11 characters and 99 wide:
  a line that starts after a line break is entered with the width of its first word only,
  without the space that the other path adds, so the second word is admitted one space
  too early.
\<close>

theorem wrapText_line_wider_than_inner_width:
  "splitLines (newLayouter None) (str ''aaaaaa bbbbb ccccc'') 20 95 = [str ''aaaaaa'', str ''bbbbb ccccc'']
   \<and> measureTextWidth (newLayouter None) 20 (str ''bbbbb ccccc'') = 99
   \<and> length (str ''bbbbb ccccc'') = 11
   \<and> ValueLines (attrs (wrapText (newLayouter None)
         (Widget (zeroAttrs\<lparr>Value := str ''aaaaaa bbbbb ccccc'',
                             Calculated := zeroCalculated\<lparr>CalcFontSize := 20, InnerWidth := 95\<rparr>\<rparr>)
            [] [] None None)))
       = Some [str ''aaaaaa'', str ''bbbbb ccccc'']"
proof -
  have s: "splitLines (newLayouter None) (str ''aaaaaa bbbbb ccccc'') 20 95
             = [str ''aaaaaa'', str ''bbbbb ccccc'']"
    by (simp add: splitLines_def str_def measureTextWidth_def MeasureTextWidth_def len_def
        utf8len_def TrimSpace_def isSpace_def Fields_def Let_def)
  have m: "measureTextWidth (newLayouter None) 20 (str ''bbbbb ccccc'') = 99"
    by (simp add: str_def measureTextWidth_def MeasureTextWidth_def len_def utf8len_def Let_def)
  have n: "length (str ''bbbbb ccccc'') = 11"
    by (simp add: str_def)
  have v: "Value (zeroAttrs\<lparr>Value := str ''aaaaaa bbbbb ccccc'',
                  Calculated := zeroCalculated\<lparr>CalcFontSize := 20, InnerWidth := 95\<rparr>\<rparr>) \<noteq> []"
    by (simp add: str_def)
  have w: "ValueLines (attrs (wrapText (newLayouter None)
         (Widget (zeroAttrs\<lparr>Value := str ''aaaaaa bbbbb ccccc'',
                             Calculated := zeroCalculated\<lparr>CalcFontSize := 20, InnerWidth := 95\<rparr>\<rparr>)
            [] [] None None)))
       = Some [str ''aaaaaa'', str ''bbbbb ccccc'']"
    using v
    by (simp add: wrapText_def Let_def s zeroAttrs_def zeroCalculated_def map_attrs_def
        set_calc_def calc_def recalculateFromInnerHeight_def)
  from s m n w show ?thesis by simp
qed

subsection \<open>Text directly under a page\<close>

lemma TrimSpace_empty_iff: "TrimSpace s = [] \<longleftrightarrow> (\<forall>c \<in> set s. isSpace c)"
proof -
  have "TrimSpace s = [] \<longleftrightarrow> dropWhile isSpace (rev (dropWhile isSpace s)) = []"
    by (simp add: TrimSpace_def)
  also have "\<dots> \<longleftrightarrow> (\<forall>c \<in> set (dropWhile isSpace s). isSpace c)"
    unfolding dropWhile_eq_Nil_conv set_rev ..
  also have "\<dots> \<longleftrightarrow> dropWhile isSpace s = []"
  proof
    assume a: "\<forall>c \<in> set (dropWhile isSpace s). isSpace c"
    show "dropWhile isSpace s = []"
    proof (rule ccontr)
      assume "dropWhile isSpace s \<noteq> []"
      then have "\<not> isSpace (hd (dropWhile isSpace s))"
        by (rule hd_dropWhile)
      moreover have "hd (dropWhile isSpace s) \<in> set (dropWhile isSpace s)"
        using \<open>dropWhile isSpace s \<noteq> []\<close> by simp
      ultimately show False using a by blast
    qed
  next
    assume "dropWhile isSpace s = []"
    then show "\<forall>c \<in> set (dropWhile isSpace s). isSpace c"
      by (auto dest: set_dropWhileD)
  qed
  also have "\<dots> \<longleftrightarrow> (\<forall>c \<in> set s. isSpace c)"
    by (simp add: dropWhile_eq_Nil_conv)
  finally show ?thesis .
qed

lemma Split_covers:
  "c \<in> set s \<Longrightarrow> c \<noteq> sep \<Longrightarrow> \<exists>p \<in> set (Split s sep). c \<in> set p"
proof (induction s)
  case Nil
  then show ?case by simp
next
  case (Cons x xs)
  show ?case
  proof (cases "x = sep")
    case True
    with Cons show ?thesis by auto
  next
    case False
    show ?thesis
    proof (cases "Split xs sep")
      case Nil
      with Cons False show ?thesis by auto
    next
      case (Cons p ps)
      with Cons.IH Cons.prems False show ?thesis by auto
    qed
  qed
qed

lemma splitClean_nonempty:
  assumes "TrimSpace text \<noteq> []"
  shows "splitClean text 10 \<noteq> []"
proof -
  from assms obtain c where c: "c \<in> set text" "\<not> isSpace c"
    by (auto simp add: TrimSpace_empty_iff)
  have "isSpace 10" by (simp add: isSpace_def)
  with c have "c \<noteq> 10" by auto
  with c(1) obtain p where p: "p \<in> set (Split text 10)" "c \<in> set p"
    using Split_covers by blast
  from p(2) c(2) have "TrimSpace p \<noteq> []"
    by (auto simp add: TrimSpace_empty_iff)
  with p(1) have "TrimSpace p \<in> set (splitClean text 10)"
    by (auto simp add: splitClean_def)
  then show ?thesis by auto
qed

lemma wrapText_empty_Value:
  "Value (attrs w) = [] \<Longrightarrow> ValueLines (attrs (wrapText l w)) = Some []"
  by (cases w)
     (simp add: wrapText_def Let_def map_attrs_def set_calc_def calc_def
        recalculateFromInnerHeight_def split: option.split)

text \<open>
  C9. Character data under a page that is not blank becomes a div whose \<open>ValueLines\<close> are
  the cleaned lines of the text, at least one, and whose \<open>Value\<close> is empty; whatever the
  computed metrics of that div, the text pass wraps it, and wrapping leaves it with the
  empty list of lines.
\<close>

theorem page_text_is_dropped:
  assumes "TrimSpace text \<noteq> []"
  shows "\<exists>w. parseToken parseElement (CharData text) page True = Inr (Some w, page)
           \<and> Type (attrs w) = ''div''
           \<and> Value (attrs w) = []
           \<and> ValueLines (attrs w) = Some (splitClean text 10)
           \<and> splitClean text 10 \<noteq> []
           \<and> (\<forall>l c. reflowTexts l (set_calc c w) = wrapText l (set_calc c w)
                  \<and> ValueLines (attrs (reflowTexts l (set_calc c w))) = Some [])"
proof -
  define w where "w = Widget
                   (zeroAttrs\<lparr>Type := ''div'',
                              ValueLines := Some (splitClean text 10),
                              Option := Option (attrs (PageWidget page))\<rparr>)
                   [] [] None None"
  have ne: "splitClean text 10 \<noteq> []"
    using assms by (rule splitClean_nonempty)
  have p: "parseToken parseElement (CharData text) page True = Inr (Some w, page)"
    using assms by (simp add: parseToken_def w_def)
  have v: "Value (attrs w) = []" "Type (attrs w) = ''div''"
    "ValueLines (attrs w) = Some (splitClean text 10)"
    by (simp_all add: w_def zeroAttrs_def)
  have r: "reflowTexts l (set_calc c w) = wrapText l (set_calc c w)" for l c
    using ne by (simp add: w_def set_calc_def map_attrs_def zeroAttrs_def)
  have e: "ValueLines (attrs (wrapText l (set_calc c w))) = Some []" for l c
    by (rule wrapText_empty_Value) (simp add: w_def set_calc_def map_attrs_def zeroAttrs_def)
  from p v ne r e show ?thesis by auto
qed

theorem page_text_is_dropped_witness:
  "TrimSpace (str ''Hello'') \<noteq> []
   \<and> (\<exists>w. parseToken (\<lambda>(t :: unit) p. Inr (None, p)) (CharData (str ''Hello'')) (pageOf 842 []) True
             = Inr (Some w, pageOf 842 [])
           \<and> ValueLines (attrs w) = Some [str ''Hello'']
           \<and> ValueLines (attrs (reflowTexts (newLayouter None) w)) = Some [])"
proof -
  have h: "TrimSpace (str ''Hello'') \<noteq> []"
    by (simp add: TrimSpace_def str_def isSpace_def)
  have s: "splitClean (str ''Hello'') 10 = [str ''Hello'']"
    by (simp add: splitClean_def TrimSpace_def str_def isSpace_def)
  from page_text_is_dropped [OF h, of "\<lambda>(t :: unit) p. Inr (None, p)" "pageOf 842 []"]
  obtain w where w: "parseToken (\<lambda>(t :: unit) p. Inr (None, p)) (CharData (str ''Hello'')) (pageOf 842 []) True
             = Inr (Some w, pageOf 842 [])"
      "ValueLines (attrs w) = Some (splitClean (str ''Hello'') 10)"
      "\<forall>l c. reflowTexts l (set_calc c w) = wrapText l (set_calc c w)
                  \<and> ValueLines (attrs (reflowTexts l (set_calc c w))) = Some []"
    by blast
  have "set_calc (calc w) w = w"
    by (cases w) (simp add: set_calc_def calc_def map_attrs_def)
  with w(3) have "ValueLines (attrs (reflowTexts (newLayouter None) w)) = Some []"
    by metis
  with h w(1,2) s show ?thesis by auto
qed

subsection \<open>Numeric attributes\<close>

lemma parseDigits_contract: "syntaxErrorGivesZero parseDigits"
  by (simp add: syntaxErrorGivesZero_def parseDigits_def)

text \<open>
  C10 (as the code has it). Whatever the element, the attribute name and the default,
  \<open>parseFloatAttr\<close> returns 0 for a value that is present, not empty and not a well-formed
  number, the error being dropped, and returns the default when the attribute is absent
  or empty. Three attributes end with their default all the same, because the element
  replaces a 0: the size of a QR code is 150, and the width and height of a page are those
  of the document.
\<close>

theorem unparsable_numeric_attribute:
  assumes "syntaxErrorGivesZero ParseFloat"
  shows "(map_of el name = Some v \<and> v \<noteq> [] \<and> snd (ParseFloat v) = Some ErrSyntax
            \<longrightarrow> parseFloatAttr ParseFloat el name defaultValue = 0)
       \<and> (map_of el name = Some v \<and> v \<noteq> []
            \<longrightarrow> parseFloatAttr ParseFloat el name defaultValue = fst (ParseFloat v))
       \<and> (map_of el name = None \<or> map_of el name = Some []
            \<longrightarrow> parseFloatAttr ParseFloat el name defaultValue = defaultValue)
       \<and> (map_of el ''size'' = Some v \<and> v \<noteq> [] \<and> snd (ParseFloat v) = Some ErrSyntax
            \<longrightarrow> parseQR_Size ParseFloat el = 150)
       \<and> (map_of el ''width'' = Some v \<and> v \<noteq> [] \<and> snd (ParseFloat v) = Some ErrSyntax
            \<longrightarrow> parsePage_Width ParseFloat el docWidth = docWidth)
       \<and> (map_of el ''height'' = Some v \<and> v \<noteq> [] \<and> snd (ParseFloat v) = Some ErrSyntax
            \<longrightarrow> parsePage_Height ParseFloat el docHeight = docHeight)"
  using assms
  by (auto simp add: parseFloatAttr_def getAttrValue_def parseFloat_def
      parseQR_Size_def parsePage_Width_def parsePage_Height_def goInt_def
      syntaxErrorGivesZero_def Let_def)

theorem unparsable_numeric_attribute_witness:
  "syntaxErrorGivesZero parseDigits
   \<and> parseFloatAttr parseDigits [(''gap'', ''abc'')] ''gap'' 0 = 0
   \<and> parseFloatAttr parseDigits [(''width'', ''abc'')] ''width'' 595 = 0
   \<and> parseFloatAttr parseDigits [(''width'', ''120'')] ''width'' 595 = 120
   \<and> parseFloatAttr parseDigits [(''width'', '''')] ''width'' 595 = 595
   \<and> parseFloatAttr parseDigits [(''height'', ''10'')] ''width'' 595 = 595
   \<and> parsePage_Width parseDigits [(''width'', ''abc'')] 595 = 595"
proof -
  have e: "snd (parseDigits ''abc'') = Some ErrSyntax"
    by (simp add: parseDigits_def)
  have d: "fst (parseDigits ''120'') = 120"
    by (simp add: parseDigits_def)
  have g: "parseFloatAttr parseDigits [(''gap'', ''abc'')] ''gap'' 0 = 0"
    using unparsable_numeric_attribute [OF parseDigits_contract,
        of "[(''gap'', ''abc'')]" "''gap''" "''abc''" 0] e
    by simp
  have a: "parseFloatAttr parseDigits [(''width'', ''abc'')] ''width'' 595 = 0"
    using unparsable_numeric_attribute [OF parseDigits_contract,
        of "[(''width'', ''abc'')]" "''width''" "''abc''" 595] e
    by simp
  have b: "parseFloatAttr parseDigits [(''width'', ''120'')] ''width'' 595 = 120"
    using unparsable_numeric_attribute [OF parseDigits_contract,
        of "[(''width'', ''120'')]" "''width''" "''120''" 595] d
    by simp
  have c: "parseFloatAttr parseDigits [(''width'', '''')] ''width'' 595 = 595"
    using unparsable_numeric_attribute [OF parseDigits_contract,
        of "[(''width'', '''')]" "''width''" "''''" 595]
    by simp
  have f: "parseFloatAttr parseDigits [(''height'', ''10'')] ''width'' 595 = 595"
    using unparsable_numeric_attribute [OF parseDigits_contract,
        of "[(''height'', ''10'')]" "''width''" "''''" 595]
    by simp
  have p: "parsePage_Width parseDigits [(''width'', ''abc'')] 595 = 595"
    using unparsable_numeric_attribute [OF parseDigits_contract,
        of "[(''width'', ''abc'')]" "''width''" "''abc''" 0 595] e
    by simp
  from parseDigits_contract g a b c f p show ?thesis by simp
qed

text \<open>
  C10 as stated fails for the size of a QR code and the width of a page: with the value
  \<open>abc\<close>, which \<open>parseFloatAttr\<close> reads as 0, the size is the default 150 and the width of
  the page is the width 595 of the document, as when the attribute is absent.
\<close>

theorem unparsable_numeric_attribute_counterexample:
  "snd (parseDigits ''abc'') = Some ErrSyntax
   \<and> parseFloatAttr parseDigits [(''size'', ''abc'')] ''size'' 150 = 0
   \<and> parseQR_Size parseDigits [(''size'', ''abc'')] = 150
   \<and> parseQR_Size parseDigits [] = 150
   \<and> parsePage_Width parseDigits [(''width'', ''abc'')] 595 = 595
   \<and> parsePage_Width parseDigits [] 595 = 595"
  by (simp add: parseDigits_def parseFloatAttr_def getAttrValue_def parseFloat_def
      parseQR_Size_def parsePage_Width_def goInt_def)

subsection \<open>Box metrics\<close>

lemma calc_set_calc [simp]: "calc (set_calc c w) = c"
  by (simp add: calc_def set_calc_def map_attrs_def)

lemma attrs_set_calc [simp]: "attrs (set_calc c w) = (attrs w)\<lparr>Calculated := c\<rparr>"
  by (simp add: set_calc_def map_attrs_def)

lemma attrs_set_Children [simp]: "attrs (set_Children cs w) = attrs w"
  by (simp add: set_Children_def)

lemma Children_set_Children [simp]: "Children (set_Children cs w) = cs"
  by (simp add: set_Children_def)

lemma calc_set_Children [simp]: "calc (set_Children cs w) = calc w"
  by (simp add: calc_def)

lemma Children_set_calc [simp]: "Children (set_calc c w) = Children w"
  by (simp add: set_calc_def map_attrs_def)


lemma recalculateFromOuterWidth_metrics:
  "OuterWidth (calc (recalculateFromOuterWidth w))
     = CalcWidth (calc (recalculateFromOuterWidth w))
       + (case Margin (attrs w) of None \<Rightarrow> 0 | Some m \<Rightarrow> Left m + Right m)"
  "InnerWidth (calc (recalculateFromOuterWidth w))
     = (case Padding (attrs w) of
          None \<Rightarrow> CalcWidth (calc (recalculateFromOuterWidth w))
        | Some p \<Rightarrow> max 0 (CalcWidth (calc (recalculateFromOuterWidth w)) - (Left p + Right p)))"
  "OuterWidth (calc (recalculateFromOuterWidth w)) = OuterWidth (calc w)"
  by (simp_all add: recalculateFromOuterWidth_def Let_def calc_def max_def
      split: option.split)













subsection \<open>Width distribution\<close>

declare initWidgetsWidth.simps [simp del]

lemma adjustColumns_attrs:
  assumes "adjustColumns l t = Inr t1"
  shows "attrs t1 = attrs t" and "length (Children t1) = length (Children t)"
    and "i < length (Children t) \<Longrightarrow> attrs (Children t1 ! i) = attrs (Children t ! i)"
  using assms
  by (auto simp add: adjustColumns_def Let_def split: if_splits)

lemma sequenceE_Inr:
  "sequenceE (map f xs) = Inr ys \<Longrightarrow>
     length ys = length xs \<and> (\<forall>i < length xs. f (xs ! i) = Inr (ys ! i))"
proof (induction xs arbitrary: ys)
  case Nil
  then show ?case by simp
next
  case (Cons x xs)
  from Cons.prems obtain v vs where v: "f x = Inr v" "sequenceE (map f xs) = Inr vs" "ys = v # vs"
    by (auto split: sum.splits)
  from Cons.IH [OF v(2)] v(1,3) show ?case
    by (auto simp add: nth_Cons split: nat.split)
qed

lemma initWidgetsWidth_attrs:
  assumes "initWidgetsWidth l w parentWidth = Inr w1"
  shows "attrs w1 = attrs (initOwnWidth w parentWidth)"
proof (cases w)
  case (Widget a cs cols ch cf)
  from assms show ?thesis
    unfolding Widget initWidgetsWidth.simps Let_def
    by (auto split: sum.splits if_splits dest: adjustColumns_attrs(1))
qed


lemma foldl_add_sum: "foldl (\<lambda>s x. s + f x) z xs = z + sum_list (map f xs)"
  for z :: real
  by (induction xs arbitrary: z) simp_all

lemma foldl_sub_sum: "foldl (\<lambda>r x. r - f x) z xs = z - sum_list (map f xs)"
  for z :: real
  by (induction xs arbitrary: z) simp_all

lemma initOwnWidth_auto:
  "Width (attrs c) = 0 \<Longrightarrow> OuterWidth (calc (initOwnWidth c x)) = x"
  by (simp add: initOwnWidth_def recalculateFromOuterWidth_metrics(3))

lemma initOwnWidth_declared:
  "Width (attrs c) \<noteq> 0 \<Longrightarrow>
     OuterWidth (calc (initOwnWidth c x))
       = (if OuterWidth (calc c) > x then x else OuterWidth (calc (addjustCalculatedWidth c)))"
  by (simp add: initOwnWidth_def recalculateFromOuterWidth_metrics(3))

lemma calc_attrs_cong: "attrs w = attrs v \<Longrightarrow> calc w = calc v"
  by (simp add: calc_def)

lemma row_children_result:
  assumes "initWidgetsWidth l (Widget a cs cols ch cf) parentWidth = Inr w1"
  obtains cs1 where
    "(let innerWidth = InnerWidth (calc (initOwnWidth (Widget a cs cols ch cf) parentWidth)) in
      if Direction a = ''row'' then
               let sumWidth0 = foldl (\<lambda>s child. s + OuterWidth (calc child)) 0 cs;
                   fixedItems = filter (\<lambda>child. Width (attrs child) \<noteq> 0) cs;
                   gap = Gap a * real_of_int (int (length cs) - 1);
                   sumWidth = (if gap > 0 then sumWidth0 + gap else sumWidth0)
               in if sumWidth < innerWidth then
                    let autoItems = filter (\<lambda>child. Width (attrs child) = 0) cs in
                    if length autoItems > 0 then
                      let remaining =
                            foldl (\<lambda>r item. r - OuterWidth (calc item)) innerWidth fixedItems
                              - gap;
                          itemWidth = remaining / real (length autoItems)
                      in sequenceE
                           (map (\<lambda>child. if Width (attrs child) = 0
                                          then initWidgetsWidth l child itemWidth
                                          else Inr child) cs)
                    else Inr cs
                  else
                    let remaining = innerWidth - gap;
                        itemWidth = remaining / real (length cs)
                    in sequenceE (map (\<lambda>child. initWidgetsWidth l child itemWidth) cs)
             else sequenceE (map (\<lambda>child. initWidgetsWidth l child innerWidth) cs)) = Inr cs1"
    and "length (Children w1) = length cs1"
    and "\<And>i. i < length cs1 \<Longrightarrow> attrs (Children w1 ! i) = attrs (cs1 ! i)"
proof -
  let ?E = "(let innerWidth = InnerWidth (calc (initOwnWidth (Widget a cs cols ch cf) parentWidth)) in
      if Direction a = ''row'' then
               let sumWidth0 = foldl (\<lambda>s child. s + OuterWidth (calc child)) 0 cs;
                   fixedItems = filter (\<lambda>child. Width (attrs child) \<noteq> 0) cs;
                   gap = Gap a * real_of_int (int (length cs) - 1);
                   sumWidth = (if gap > 0 then sumWidth0 + gap else sumWidth0)
               in if sumWidth < innerWidth then
                    let autoItems = filter (\<lambda>child. Width (attrs child) = 0) cs in
                    if length autoItems > 0 then
                      let remaining =
                            foldl (\<lambda>r item. r - OuterWidth (calc item)) innerWidth fixedItems
                              - gap;
                          itemWidth = remaining / real (length autoItems)
                      in sequenceE
                           (map (\<lambda>child. if Width (attrs child) = 0
                                          then initWidgetsWidth l child itemWidth
                                          else Inr child) cs)
                    else Inr cs
                  else
                    let remaining = innerWidth - gap;
                        itemWidth = remaining / real (length cs)
                    in sequenceE (map (\<lambda>child. initWidgetsWidth l child itemWidth) cs)
             else sequenceE (map (\<lambda>child. initWidgetsWidth l child innerWidth) cs))"
  define w0 where "w0 = initOwnWidth (Widget a cs cols ch cf) parentWidth"
  have eq: "initWidgetsWidth l (Widget a cs cols ch cf) parentWidth
          = (case ?E of Inl e \<Rightarrow> Inl e
             | Inr cs1 \<Rightarrow> if Type a = ''table'' then adjustColumns l (set_Children cs1 w0)
                          else Inr (set_Children cs1 w0))"
    unfolding initWidgetsWidth.simps w0_def Let_def by (rule refl)
  from assms eq obtain cs1 where cs1: "?E = Inr cs1"
    and r: "(if Type a = ''table'' then adjustColumns l (set_Children cs1 w0)
             else Inr (set_Children cs1 w0)) = Inr w1"
    by (cases ?E) auto
  have len: "length (Children w1) = length cs1"
    using r adjustColumns_attrs(2) [of l "set_Children cs1 w0" w1]
    by (auto split: if_splits)
  have at: "attrs (Children w1 ! i) = attrs (cs1 ! i)" if "i < length cs1" for i
    using r that adjustColumns_attrs(3) [of l "set_Children cs1 w0" w1 i]
    by (auto split: if_splits)
  from cs1 len at show ?thesis by (rule that)
qed


text \<open>
  C2 (as the code has it). In a container of direction row, with \<open>sumWidth\<close> the sum of the
  outer widths that all children have on entry (an auto-width child counts with its
  intrinsic width) plus the total gap when that is positive: if \<open>sumWidth\<close> is below the
  inner width, each auto-width child gets the inner width minus the declared children's
  outer widths minus the total gap, divided by the number of auto-width children, and a
  declared-width child keeps its metrics; otherwise each auto-width child gets the share
  (inner width - total gap) / n, and a declared-width child is cut down to the share
  only when it is wider.
\<close>

theorem row_width_distribution:
  assumes "Direction a = ''row''"
    and "initWidgetsWidth l (Widget a cs cols ch cf) parentWidth = Inr w1"
  shows
    "let innerWidth = InnerWidth (calc (initOwnWidth (Widget a cs cols ch cf) parentWidth));
         gap = Gap a * (real (length cs) - 1);
         sumWidth = sum_list (map (\<lambda>c. OuterWidth (calc c)) cs) + (if gap > 0 then gap else 0);
         fixedWidth = sum_list (map (\<lambda>c. OuterWidth (calc c))
                                  (filter (\<lambda>c. Width (attrs c) \<noteq> 0) cs));
         autoCount = length (filter (\<lambda>c. Width (attrs c) = 0) cs);
         share = (innerWidth - gap) / real (length cs)
     in length (Children w1) = length cs \<and>
        (\<forall>i < length cs.
           (sumWidth < innerWidth \<longrightarrow>
              (Width (attrs (cs ! i)) = 0 \<longrightarrow>
                 OuterWidth (calc (Children w1 ! i))
                   = (innerWidth - fixedWidth - gap) / real autoCount) \<and>
              (Width (attrs (cs ! i)) \<noteq> 0 \<longrightarrow> attrs (Children w1 ! i) = attrs (cs ! i))) \<and>
           (\<not> sumWidth < innerWidth \<longrightarrow>
              (Width (attrs (cs ! i)) = 0 \<longrightarrow> OuterWidth (calc (Children w1 ! i)) = share) \<and>
              (Width (attrs (cs ! i)) \<noteq> 0 \<longrightarrow>
                 OuterWidth (calc (Children w1 ! i))
                   = (if OuterWidth (calc (cs ! i)) > share then share
                      else OuterWidth (calc (addjustCalculatedWidth (cs ! i)))))))"
proof -
  define innerWidth where
    "innerWidth = InnerWidth (calc (initOwnWidth (Widget a cs cols ch cf) parentWidth))"
  define gap where "gap = Gap a * (real (length cs) - 1)"
  define sumWidth where
    "sumWidth = sum_list (map (\<lambda>c. OuterWidth (calc c)) cs) + (if gap > 0 then gap else 0)"
  define fixedWidth where
    "fixedWidth = sum_list (map (\<lambda>c. OuterWidth (calc c))
                                  (filter (\<lambda>c. Width (attrs c) \<noteq> 0) cs))"
  define autoCount where "autoCount = length (filter (\<lambda>c. Width (attrs c) = 0) cs)"
  define share where "share = (innerWidth - gap) / real (length cs)"
  define itemWidth where "itemWidth = (innerWidth - fixedWidth - gap) / real autoCount"
  have cast: "real_of_int (int (length cs) - 1) = real (length cs) - 1"
    by simp
  from assms(2) obtain cs1 where
    E: "(if sumWidth < innerWidth then
           if autoCount > 0 then
             sequenceE (map (\<lambda>child. if Width (attrs child) = 0
                                      then initWidgetsWidth l child itemWidth
                                      else Inr child) cs)
           else Inr cs
         else sequenceE (map (\<lambda>child. initWidgetsWidth l child share) cs)) = Inr cs1"
    and len: "length (Children w1) = length cs1"
    and at: "\<And>i. i < length cs1 \<Longrightarrow> attrs (Children w1 ! i) = attrs (cs1 ! i)"
  proof (rule row_children_result)
    fix cs1
    assume 1: "(let innerWidth = InnerWidth (calc (initOwnWidth (Widget a cs cols ch cf) parentWidth)) in
      if Direction a = ''row'' then
               let sumWidth0 = foldl (\<lambda>s child. s + OuterWidth (calc child)) 0 cs;
                   fixedItems = filter (\<lambda>child. Width (attrs child) \<noteq> 0) cs;
                   gap = Gap a * real_of_int (int (length cs) - 1);
                   sumWidth = (if gap > 0 then sumWidth0 + gap else sumWidth0)
               in if sumWidth < innerWidth then
                    let autoItems = filter (\<lambda>child. Width (attrs child) = 0) cs in
                    if length autoItems > 0 then
                      let remaining =
                            foldl (\<lambda>r item. r - OuterWidth (calc item)) innerWidth fixedItems
                              - gap;
                          itemWidth = remaining / real (length autoItems)
                      in sequenceE
                           (map (\<lambda>child. if Width (attrs child) = 0
                                          then initWidgetsWidth l child itemWidth
                                          else Inr child) cs)
                    else Inr cs
                  else
                    let remaining = innerWidth - gap;
                        itemWidth = remaining / real (length cs)
                    in sequenceE (map (\<lambda>child. initWidgetsWidth l child itemWidth) cs)
             else sequenceE (map (\<lambda>child. initWidgetsWidth l child innerWidth) cs)) = Inr cs1"
      and 2: "length (Children w1) = length cs1"
      and 3: "\<And>i. i < length cs1 \<Longrightarrow> attrs (Children w1 ! i) = attrs (cs1 ! i)"
    have "(if sumWidth < innerWidth then
           if autoCount > 0 then
             sequenceE (map (\<lambda>child. if Width (attrs child) = 0
                                      then initWidgetsWidth l child itemWidth
                                      else Inr child) cs)
           else Inr cs
         else sequenceE (map (\<lambda>child. initWidgetsWidth l child share) cs)) = Inr cs1"
      using 1 assms(1)
      unfolding Let_def foldl_sub_sum foldl_add_sum itemWidth_def share_def autoCount_def
        fixedWidth_def sumWidth_def innerWidth_def gap_def cast
      by (simp split: if_splits)
    then show thesis using 2 3 by (rule that)
  qed
  have main: "length cs1 = length cs \<and>
        (\<forall>i < length cs.
           (sumWidth < innerWidth \<longrightarrow>
              (Width (attrs (cs ! i)) = 0 \<longrightarrow> OuterWidth (calc (cs1 ! i)) = itemWidth) \<and>
              (Width (attrs (cs ! i)) \<noteq> 0 \<longrightarrow> attrs (cs1 ! i) = attrs (cs ! i))) \<and>
           (\<not> sumWidth < innerWidth \<longrightarrow>
              (Width (attrs (cs ! i)) = 0 \<longrightarrow> OuterWidth (calc (cs1 ! i)) = share) \<and>
              (Width (attrs (cs ! i)) \<noteq> 0 \<longrightarrow>
                 OuterWidth (calc (cs1 ! i))
                   = (if OuterWidth (calc (cs ! i)) > share then share
                      else OuterWidth (calc (addjustCalculatedWidth (cs ! i)))))))"
  proof (cases "sumWidth < innerWidth")
    case True
    show ?thesis
    proof (cases "autoCount > 0")
      case auto: True
      from E True auto have
        s: "sequenceE (map (\<lambda>child. if Width (attrs child) = 0
                                      then initWidgetsWidth l child itemWidth
                                      else Inr child) cs) = Inr cs1"
        by simp
      note S = sequenceE_Inr [OF s]
      have "OuterWidth (calc (cs1 ! i)) = itemWidth"
        if "i < length cs" "Width (attrs (cs ! i)) = 0" for i
      proof -
        from S that have "initWidgetsWidth l (cs ! i) itemWidth = Inr (cs1 ! i)" by auto
        then have "attrs (cs1 ! i) = attrs (initOwnWidth (cs ! i) itemWidth)"
          by (rule initWidgetsWidth_attrs)
        then have "calc (cs1 ! i) = calc (initOwnWidth (cs ! i) itemWidth)"
          by (rule calc_attrs_cong)
        with that(2) show ?thesis by (simp add: initOwnWidth_auto)
      qed
      moreover have "attrs (cs1 ! i) = attrs (cs ! i)"
        if "i < length cs" "Width (attrs (cs ! i)) \<noteq> 0" for i
        using S that by auto
      ultimately show ?thesis using True S by auto
    next
      case False
      then have "filter (\<lambda>c. Width (attrs c) = 0) cs = []"
        by (simp add: autoCount_def)
      then have "\<forall>c \<in> set cs. Width (attrs c) \<noteq> 0"
        by (simp add: filter_empty_conv)
      moreover from E True False have "cs1 = cs" by simp
      ultimately show ?thesis using True by auto
    qed
  next
    case False
    with E have s: "sequenceE (map (\<lambda>child. initWidgetsWidth l child share) cs) = Inr cs1"
      by simp
    note S = sequenceE_Inr [OF s]
    have c: "calc (cs1 ! i) = calc (initOwnWidth (cs ! i) share)" if "i < length cs" for i
    proof -
      from S that have "initWidgetsWidth l (cs ! i) share = Inr (cs1 ! i)" by auto
      then have "attrs (cs1 ! i) = attrs (initOwnWidth (cs ! i) share)"
        by (rule initWidgetsWidth_attrs)
      then show ?thesis by (rule calc_attrs_cong)
    qed
    show ?thesis
      using False S c by (auto simp add: initOwnWidth_auto initOwnWidth_declared)
  qed
  have cc: "calc (Children w1 ! i) = calc (cs1 ! i)" if "i < length cs" for i
    using at [of i] that main by (simp add: calc_def)
  show ?thesis
    unfolding Let_def innerWidth_def [symmetric] gap_def [symmetric]
      sumWidth_def [symmetric] fixedWidth_def [symmetric] autoCount_def [symmetric]
      share_def [symmetric]
    using main len at cc unfolding itemWidth_def by auto
qed


lemma s3_prepared:
  "initFixedSizes (newLayouter None) (\<lambda>img. img)
     (initCalculatedInfo (rowDiv [emptyDiv 100, emptyDiv 0]) (Some pageStyle))
   = Widget (zeroAttrs\<lparr>Type := ''div'', Direction := ''row'',
                        Calculated := pageStyle\<lparr>CalcDirection := ''row''\<rparr>\<rparr>)
       [Widget (zeroAttrs\<lparr>Type := ''div'', Width := 100,
                   Calculated := pageStyle\<lparr>CalcWidth := 100, InnerWidth := 100,
                                              OuterWidth := 100\<rparr>\<rparr>) [] [] None None,
        Widget (zeroAttrs\<lparr>Type := ''div'', Calculated := pageStyle\<rparr>) [] [] None None]
       [] None None"
  by code_simp

theorem row_width_distribution_witness:
  "childOuterWidths (widthPasses (rowDiv [emptyDiv 100, emptyDiv 0]) 300) = [100, 200]"
proof -
  define a where "a = zeroAttrs\<lparr>Type := ''div'', Direction := ''row'',
                        Calculated := pageStyle\<lparr>CalcDirection := ''row''\<rparr>\<rparr>"
  define c0 where "c0 = Widget (zeroAttrs\<lparr>Type := ''div'', Width := 100,
                   Calculated := pageStyle\<lparr>CalcWidth := 100, InnerWidth := 100,
                                              OuterWidth := 100\<rparr>\<rparr>) [] [] None None"
  define c1 where "c1 = Widget (zeroAttrs\<lparr>Type := ''div'', Calculated := pageStyle\<rparr>)
                          [] [] None None"
  have d: "Direction a = ''row''"
    unfolding a_def by code_simp
  have p: "widthPasses (rowDiv [emptyDiv 100, emptyDiv 0]) 300
             = initWidgetsWidth (newLayouter None) (Widget a [c0, c1] [] None None) 300"
    unfolding widthPasses_def s3_prepared a_def c0_def c1_def by (rule refl)
  have "\<not> isl (initWidgetsWidth (newLayouter None) (Widget a [c0, c1] [] None None) 300)"
    unfolding a_def c0_def c1_def by code_simp
  then obtain w1 where
    r: "initWidgetsWidth (newLayouter None) (Widget a [c0, c1] [] None None) 300 = Inr w1"
    by (cases "initWidgetsWidth (newLayouter None) (Widget a [c0, c1] [] None None) 300") auto
  have i: "InnerWidth (calc (initOwnWidth (Widget a [c0, c1] [] None None) 300)) = 300"
    unfolding a_def c0_def c1_def by code_simp
  have g: "Gap a = 0"
    unfolding a_def by code_simp
  have w: "Width (attrs c0) = 100" "Width (attrs c1) = 0"
    "OuterWidth (calc c0) = 100" "OuterWidth (calc c1) = 0"
    unfolding c0_def c1_def by code_simp+
  from row_width_distribution [OF d r]
  have "length (Children w1) = 2
        \<and> attrs (Children w1 ! 0) = attrs c0
        \<and> OuterWidth (calc (Children w1 ! 1)) = 200"
    unfolding Let_def i g by (simp add: w)
  then have "map (\<lambda>c. OuterWidth (calc c)) (Children w1) = [100, 200]"
    using w(3) by (cases "Children w1") (auto simp add: calc_def length_Suc_conv)
  with p r show ?thesis by (simp add: childOuterWidths_def)
qed

text \<open>
  C2 as stated fails twice. With declared widths 250 and 100 in an inner width of 300
  the declared sum exceeds the inner width, yet the second child keeps 100 and is not
  given the equal share 150. With a declared width of 250 and an auto-width child holding
  a text of 20 bytes (69.3 wide) the declared widths sum to less than 300, yet both
  children get 150: the auto-width child does not get the remaining 50.
\<close>

theorem row_width_distribution_counterexample:
  "childOuterWidths (widthPasses (rowDiv [emptyDiv 250, emptyDiv 100]) 300) = [150, 100]
   \<and> childOuterWidths
        (widthPasses (rowDiv [emptyDiv 250, textDiv ''xxxxxxxxxxxxxxxxxxxx'']) 300)
       = [150, 150]"
proof -
  have 1: "childOuterWidths (widthPasses (rowDiv [emptyDiv 250, emptyDiv 100]) 300)
             = [150, 100]"
    by code_simp
  have 2: "childOuterWidths
        (widthPasses (rowDiv [emptyDiv 250, textDiv ''xxxxxxxxxxxxxxxxxxxx'']) 300)
       = [150, 150]"
    by code_simp
  from 1 2 show ?thesis by simp
qed

subsection \<open>Box metrics: the claim\<close>









subsection \<open>Page splitting\<close>

lemma adjustCalculatedY_keeps:
  "Type (attrs (adjustCalculatedY w)) = Type (attrs w)"
  "Y (attrs (adjustCalculatedY w)) = Y (attrs w)"
  "OuterHeight (calc (adjustCalculatedY w)) = OuterHeight (calc w)"
  "OuterY (calc (adjustCalculatedY w)) = OuterY (calc w)"
  "Children (adjustCalculatedY w) = Children w"
  by (simp_all add: adjustCalculatedY_def Let_def calc_def split: option.split)

lemma resetY_nth:
  assumes "i < length ws"
  shows "(Y (attrs (ws ! i)) = 0 \<longrightarrow>
            OuterY (calc (resetY ws y gap ! i)) = flowY ws y gap i
            \<and> OuterHeight (calc (resetY ws y gap ! i)) = OuterHeight (calc (ws ! i))
            \<and> Type (attrs (resetY ws y gap ! i)) = Type (attrs (ws ! i)))
       \<and> (Y (attrs (ws ! i)) \<noteq> 0 \<longrightarrow> resetY ws y gap ! i = ws ! i)"
  using assms
proof (induction ws arbitrary: y i)
  case Nil
  then show ?case by simp
next
  case (Cons w ws)
  show ?case
  proof (cases i)
    case 0
    then show ?thesis
      by (simp add: flowY_def Let_def adjustCalculatedY_keeps calc_def [symmetric])
  next
    case (Suc j)
    with Cons.prems have j: "j < length ws" by simp
    show ?thesis
    proof (cases "Y (attrs w) = 0")
      case True
      from Cons.IH [OF j, of "y + (OuterHeight (calc w) + gap)"] True Suc
      show ?thesis
        by (simp add: flowY_def Let_def adjustCalculatedY_keeps algebra_simps)
    next
      case False
      from Cons.IH [OF j, of y] False Suc
      show ?thesis
        by (simp add: flowY_def)
    qed
  qed
qed

lemma resetY_hd:
  "Type (attrs (hd (resetY (c # cs) y gap))) = Type (attrs c)"
  "OuterHeight (calc (hd (resetY (c # cs) y gap))) = OuterHeight (calc c)"
  by (simp_all add: Let_def adjustCalculatedY_keeps)

lemma appendToCurrent_snoc: "appendToCurrent w (pages @ [p]) = pages @ [appendChild w p]"
  by (simp add: appendToCurrent_def)

lemma Children_copyPage: "Children (PageWidget (copyPage page b)) = []"
  by (simp add: copyPage_def Let_def)

text \<open>
  C4 (as the code has it). When the walk reaches a child that is not a table, whose
  bottom \<open>currentY\<close> + outer height exceeds the inner height of the page, while the current
  output page holds a child already, then a fresh copy of the page is appended and the
  child is put on it with \<open>currentY\<close> reset to 0, and the walk goes on after the child with
  \<open>currentY\<close> = its outer height (+ gap when positive). The child and the children after it
  that have no declared \<open>y\<close> are given the outer y of a flow from 0 with the page's gap;
  those with a declared \<open>y\<close> are left as they are and take no room in that flow.
\<close>

theorem overflowing_child_starts_new_page:
  assumes "pages \<noteq> []"
    and "Children (PageWidget (last pages)) \<noteq> []"
    and "Type (attrs c) \<noteq> ''table''"
    and "currentY0 + OuterHeight (calc c) > InnerHeight (calc (PageWidget page))"
  shows "splitPage_loop l page pages currentY0 (c # cs)
           = splitPage_loop l page
               (pages @ [appendChild (hd (resetY (c # cs) 0 (Gap (attrs (PageWidget page)))))
                           (copyPage page (currentY0 \<ge> InnerHeight (calc (PageWidget page))))])
               (0 + OuterHeight (calc c)
                  + (if Gap (attrs (PageWidget page)) > 0 then Gap (attrs (PageWidget page))
                     else 0))
               (tl (resetY (c # cs) 0 (Gap (attrs (PageWidget page)))))
         \<and> (\<forall>i < length (c # cs).
               (Y (attrs ((c # cs) ! i)) = 0 \<longrightarrow>
                  OuterY (calc (resetY (c # cs) 0 (Gap (attrs (PageWidget page))) ! i))
                    = flowY (c # cs) 0 (Gap (attrs (PageWidget page))) i)
               \<and> (Y (attrs ((c # cs) ! i)) \<noteq> 0 \<longrightarrow>
                    resetY (c # cs) 0 (Gap (attrs (PageWidget page))) ! i = (c # cs) ! i))"
proof
  define gap where "gap = Gap (attrs (PageWidget page))"
  define pageBottom where "pageBottom = InnerHeight (calc (PageWidget page))"
  define R where "R = resetY (c # cs) 0 gap"
  have ty: "Type (attrs (hd R)) \<noteq> ''table''"
    using assms(3) by (simp add: R_def resetY_hd del: resetY.simps)
  have oh: "OuterHeight (calc (hd R)) = OuterHeight (calc c)"
    by (simp add: R_def resetY_hd del: resetY.simps)
  have body: "splitPage_body l page pages currentY0 c cs
                = Some (Inr (pages @ [appendChild (hd R) (copyPage page (currentY0 \<ge> pageBottom))],
                             0 + OuterHeight (calc c) + (if gap > 0 then gap else 0),
                             tl R))"
  proof (cases "currentY0 \<ge> pageBottom")
    case True
    then show ?thesis
      unfolding splitPage_body_def Let_def gap_def [symmetric] pageBottom_def [symmetric]
      using ty oh
      by (simp add: R_def Children_copyPage appendToCurrent_snoc del: resetY.simps)
  next
    case False
    then show ?thesis
      unfolding splitPage_body_def Let_def gap_def [symmetric] pageBottom_def [symmetric]
      using ty oh assms
      by (simp add: R_def appendToCurrent_snoc pageBottom_def del: resetY.simps)
  qed
  show "splitPage_loop l page pages currentY0 (c # cs)
           = splitPage_loop l page
               (pages @ [appendChild (hd (resetY (c # cs) 0 (Gap (attrs (PageWidget page)))))
                           (copyPage page (currentY0 \<ge> InnerHeight (calc (PageWidget page))))])
               (0 + OuterHeight (calc c)
                  + (if Gap (attrs (PageWidget page)) > 0 then Gap (attrs (PageWidget page))
                     else 0))
               (tl (resetY (c # cs) 0 (Gap (attrs (PageWidget page)))))"
    unfolding splitPage_loop.simps body [unfolded R_def gap_def pageBottom_def]
    by simp
  show "\<forall>i < length (c # cs).
               (Y (attrs ((c # cs) ! i)) = 0 \<longrightarrow>
                  OuterY (calc (resetY (c # cs) 0 (Gap (attrs (PageWidget page))) ! i))
                    = flowY (c # cs) 0 (Gap (attrs (PageWidget page))) i)
               \<and> (Y (attrs ((c # cs) ! i)) \<noteq> 0 \<longrightarrow>
                    resetY (c # cs) 0 (Gap (attrs (PageWidget page))) ! i = (c # cs) ! i)"
    using resetY_nth [of _ "c # cs" 0 "Gap (attrs (PageWidget page))"] by blast
qed


text \<open>
  Scenario S5: a page of inner height 800 with three divs of outer height 400 gives two
  pages, the first with divs 1 and 2 at y 0 and 400, the second with div 3 at y 0. The
  third div meets the walk with two children on the current page and \<open>currentY\<close> = 800.
\<close>

theorem overflowing_child_starts_new_page_witness:
  "pageLayout (splitPage (newLayouter None)
       (pageOf 800 [placedDiv 0 0 400, placedDiv 0 400 400, placedDiv 0 800 400]))
     = [[(0, 400), (400, 400)], [(0, 400)]]"
proof -
  define page where
    "page = pageOf 800 [placedDiv 0 0 400, placedDiv 0 400 400, placedDiv 0 800 400]"
  define P1 where
    "P1 = appendChild (placedDiv 0 400 400) (appendChild (placedDiv 0 0 400) (copyPage page True))"
  have start: "splitPage (newLayouter None) page
                 = splitPage_loop (newLayouter None) page [P1] 800 [placedDiv 0 800 400]"
    unfolding P1_def page_def by code_simp
  have h1: "[P1] \<noteq> []" by simp
  have h2: "Children (PageWidget (last [P1])) \<noteq> []"
    unfolding P1_def page_def by code_simp
  have h3: "Type (attrs (placedDiv 0 800 400)) \<noteq> ''table''"
    by code_simp
  have h4: "800 + OuterHeight (calc (placedDiv 0 800 400)) > InnerHeight (calc (PageWidget page))"
    unfolding page_def by code_simp
  note step = overflowing_child_starts_new_page [OF h1 h2 h3 h4, of "newLayouter None" "[]",
      THEN conjunct1]
  have fin: "pageLayout (splitPage_loop (newLayouter None) page
               ([P1] @ [appendChild (hd (resetY [placedDiv 0 800 400] 0 (Gap (attrs (PageWidget page)))))
                           (copyPage page (800 \<ge> InnerHeight (calc (PageWidget page))))])
               (0 + OuterHeight (calc (placedDiv 0 800 400))
                  + (if Gap (attrs (PageWidget page)) > 0 then Gap (attrs (PageWidget page))
                     else 0))
               (tl (resetY [placedDiv 0 800 400] 0 (Gap (attrs (PageWidget page))))))
             = [[(0, 400), (400, 400)], [(0, 400)]]"
    unfolding P1_def page_def by code_simp
  show ?thesis
    unfolding page_def [symmetric] start step fin by (rule refl)
qed

text \<open>
  C4 as stated fails for a child with a declared \<open>y\<close>. On a page of inner height 800 with
  divs of outer height 500 and 400 in the flow and a third div, 50 high, declared at
  \<open>y\<close> = 700, the second div starts a new page at y 0, and the third, still unplaced, is put
  on that page at its y of 700: it is not re-flowed to 400.
\<close>

theorem overflowing_child_counterexample:
  "pageLayout (splitPage (newLayouter None)
       (pageOf 800 [placedDiv 0 0 500, placedDiv 0 500 400, placedDiv 700 700 50]))
     = [[(0, 500)], [(0, 400), (700, 50)]]"
  by code_simp



subsection \<open>Table splitting: carry\<close>

lemma attrs_map_attrs [simp]: "attrs (map_attrs f w) = f (attrs w)"
  by (simp add: map_attrs_def)

lemma Children_map_attrs [simp]: "Children (map_attrs f w) = Children w"
  by (simp add: map_attrs_def)

lemma Children_recalculateFromInnerHeight [simp]:
  "Children (recalculateFromInnerHeight w) = Children w"
  by (simp add: recalculateFromInnerHeight_def Let_def)

lemma attrs_recalculateFromInnerHeight:
  "CarryLast (attrs (recalculateFromInnerHeight w)) = CarryLast (attrs w)"
  "CarryNext (attrs (recalculateFromInnerHeight w)) = CarryNext (attrs w)"
  by (simp_all add: recalculateFromInnerHeight_def Let_def)

lemma getColumnSum_Inr:
  assumes "getColumnSum l rs column = Inr s"
  shows "s = sum_list (map (rowCarryValue l column) rs)"
proof -
  have f: "(\<lambda>total row.
                      let cell = Children row ! nat column in
                      if IsHeader (attrs cell) then total
                      else
                        (case ValueLines (attrs cell) of
                           Some [line] \<Rightarrow>
                             (case formatter l of
                                Some ParseNumber \<Rightarrow>
                                  (case ParseNumber line of
                                     Some v \<Rightarrow> total + v
                                   | None \<Rightarrow> total)
                              | None \<Rightarrow> total)
                         | _ \<Rightarrow> total))
           = (\<lambda>total row. total + rowCarryValue l column row)"
    by (intro ext) (simp add: rowCarryValue_def Let_def split: option.split list.split)
  from assms have "s = foldl (\<lambda>total row. total + rowCarryValue l column row) 0 rs"
    unfolding getColumnSum_def f by (simp split: if_splits)
  then show ?thesis by (simp add: foldl_add_sum)
qed

lemma fillClone_carry:
  assumes "fillClone l table st index = Inr (t3, c1)"
    and "CarryColumn (attrs table) \<ge> 0"
  shows "CarryLast (attrs t3) = carryLast st"
    and "CarryNext (attrs t3) = c1"
    and "c1 = Some (carryValue (carryLast st) + carrySum l (CarryColumn (attrs table)) t3)"
proof -
  define currentRows where
    "currentRows = setAlternateColor (take index (rows st)) (AlternateColor (attrs table))"
  define t2 where
    "t2 = recalculateFromInnerHeight
            (set_calc ((calc (set_Children currentRows
                 (map_attrs (\<lambda>a. a\<lparr>PageNumber := pageIndex st\<rparr>) (currentTable st))))
                   \<lparr>InnerHeight := foldl (\<lambda>h row. h + OuterHeight (calc row)) 0 currentRows\<rparr>)
               (set_Children currentRows
                 (map_attrs (\<lambda>a. a\<lparr>PageNumber := pageIndex st\<rparr>) (currentTable st))))"
  have c: "Children t2 = currentRows"
    by (simp add: t2_def)
  have eq: "fillClone l table st index
              = (case getColumnSum l currentRows (CarryColumn (attrs table)) of
                   Inl e \<Rightarrow> Inl e
                 | Inr s \<Rightarrow>
                     Inr (map_attrs (\<lambda>a. a\<lparr>CarryLast := carryLast st,
                            CarryNext := Some (carryValue (carryLast st) + s)\<rparr>) t2,
                          Some (carryValue (carryLast st) + s)))"
    using assms(2)
    unfolding fillClone_def Let_def currentRows_def t2_def carryValue_def
    by simp
  from assms(1) have "\<not> isl (getColumnSum l currentRows (CarryColumn (attrs table)))"
    unfolding eq by (cases "getColumnSum l currentRows (CarryColumn (attrs table))") simp_all
  then obtain s where s: "getColumnSum l currentRows (CarryColumn (attrs table)) = Inr s"
    by (cases "getColumnSum l currentRows (CarryColumn (attrs table))") simp_all
  from assms(1) have
    "(Inr (map_attrs (\<lambda>a. a\<lparr>CarryLast := carryLast st,
                 CarryNext := Some (carryValue (carryLast st) + s)\<rparr>) t2,
           Some (carryValue (carryLast st) + s)) :: error + Widget \<times> real option)
       = Inr (t3, c1)"
    unfolding eq s by (simp only: sum.case)
  then have
    t3: "t3 = map_attrs (\<lambda>a. a\<lparr>CarryLast := carryLast st,
                 CarryNext := Some (carryValue (carryLast st) + s)\<rparr>) t2"
    and c1: "c1 = Some (carryValue (carryLast st) + s)"
    by blast+
  show "CarryLast (attrs t3) = carryLast st" "CarryNext (attrs t3) = c1"
    by (simp_all add: t3 c1)
  have "carrySum l (CarryColumn (attrs table)) t3 = s"
    using getColumnSum_Inr [OF s] by (simp add: carrySum_def t3 c)
  with c1 show "c1 = Some (carryValue (carryLast st) + carrySum l (CarryColumn (attrs table)) t3)"
    by simp
qed

lemma length_resetRowsY_loop [simp]: "length (resetRowsY_loop rs y) = length rs"
  by (induction rs arbitrary: y) (simp_all add: Let_def)

lemma nextClone_rows:
  "remainingRows \<noteq> [] \<Longrightarrow> Children (nextClone table headerRow remainingRows n) \<noteq> []"
proof -
  assume r: "remainingRows \<noteq> []"
  have "length (Children (nextClone table headerRow remainingRows n))
          = length (case headerRow of Some h \<Rightarrow> h # remainingRows | None \<Rightarrow> remainingRows)"
    by (simp add: nextClone_def resetRowsY_def Let_def adjustCalculatedY_keeps)
  with r show ?thesis by (cases headerRow) auto
qed

lemma carryValue_carryAfter:
  "carryValue (carryAfter l column ds) = sum_list (map (carrySum l column) ds)"
  by (simp add: carryValue_def carryAfter_def)

lemma carryChain_snoc:
  assumes "carryChain l column ds"
    and "CarryLast (attrs t) = carryAfter l column ds"
    and "CarryNext (attrs t) = carryAfter l column (ds @ [t])"
  shows "carryChain l column (ds @ [t])"
  unfolding carryChain_def
proof (intro allI impI)
  fix i assume i: "i < length (ds @ [t])"
  show "CarryLast (attrs ((ds @ [t]) ! i)) = carryAfter l column (take i (ds @ [t]))
        \<and> CarryNext (attrs ((ds @ [t]) ! i)) = carryAfter l column (take (Suc i) (ds @ [t]))"
  proof (cases "i < length ds")
    case True
    with assms(1) show ?thesis
      by (simp add: carryChain_def nth_append)
  next
    case False
    with i have "i = length ds" by simp
    with assms(2,3) show ?thesis by simp
  qed
qed

lemma splitTable_loop_chain:
  assumes "splitTable_loop l table headerRow innerHeight st = Some res"
  shows "\<forall>stf. res = Inr stf \<longrightarrow> CarryColumn (attrs table) \<ge> 0 \<longrightarrow> rows st \<noteq> []
           \<longrightarrow> carryChain l (CarryColumn (attrs table)) (filled st)
           \<longrightarrow> carryLast st = carryAfter l (CarryColumn (attrs table)) (filled st)
           \<longrightarrow> rows stf = []
           \<longrightarrow> carryChain l (CarryColumn (attrs table)) (filled stf @ [currentTable stf])"
proof (induction l table headerRow innerHeight st res rule: splitTable_loop.raw_induct)
  case (1 loop l table headerRow innerHeight st res)
  define index where
    "index = length (takeWhile
                    (\<lambda>row. \<not> (currentY st + OuterY (calc row) + OuterHeight (calc row)
                                  > innerHeight)) (rows st))"
  define col where "col = CarryColumn (attrs table)"
  note body = "1.hyps" [unfolded Let_def, folded index_def]
  show ?case
  proof (intro allI impI)
    fix stf
    assume res: "res = Inr stf" and cc: "CarryColumn (attrs table) \<ge> 0"
      and ne: "rows st \<noteq> []"
      and ch: "carryChain l (CarryColumn (attrs table)) (filled st)"
      and cl: "carryLast st = carryAfter l (CarryColumn (attrs table)) (filled st)"
      and fin: "rows stf = []"
    show "carryChain l (CarryColumn (attrs table)) (filled stf @ [currentTable stf])"
    proof (cases "index = 0")
      case True
      with body res have "stf = st" by simp
      with ne fin show ?thesis by simp
    next
      case False
      show ?thesis
      proof (cases "fillClone l table st index")
        case (Inl e)
        with body False res show ?thesis by simp
      next
        case (Inr p)
        obtain t3 c1 where p: "p = (t3, c1)" by (cases p)
        note F = fillClone_carry [OF Inr [unfolded p] cc]
        have last': "CarryLast (attrs t3) = carryAfter l (CarryColumn (attrs table)) (filled st)"
          using F(1) cl by simp
        have next': "CarryNext (attrs t3)
                       = carryAfter l (CarryColumn (attrs table)) (filled st @ [t3])"
          using F(2,3) cl
          by (simp add: carryAfter_def carryValue_def)
        have chain': "carryChain l (CarryColumn (attrs table)) (filled st @ [t3])"
          using ch last' next' by (rule carryChain_snoc)
        show ?thesis
        proof (cases "drop index (rows st) = []")
          case True
          with body False Inr p res
          have "stf = st\<lparr>rows := [], currentTable := t3, carryLast := c1\<rparr>"
            by simp
          with chain' show ?thesis by simp
        next
          case rem: False
          define t5 where
            "t5 = nextClone table headerRow (drop index (rows st)) (pageIndex st + 1)"
          define st1 where
            "st1 = \<lparr>rows = Children t5, currentTable = t5, currentY = 0,
                        pageIndex = pageIndex st + 1, carryLast = c1,
                        filled = filled st @ [t3], pageBreak = True\<rparr>"
          from body False Inr p rem
          have rec: "loop l table headerRow innerHeight st1 = Some res"
            by (simp add: t5_def st1_def)
          have r1: "rows st1 \<noteq> []"
            using nextClone_rows [OF rem] by (simp add: st1_def t5_def)
          have c1': "carryLast st1
                       = carryAfter l (CarryColumn (attrs table)) (filled st1)"
            using F(2) next' by (simp add: st1_def)
          have ch1: "carryChain l (CarryColumn (attrs table)) (filled st1)"
            using chain' by (simp add: st1_def)
          from "1.IH" [OF rec] res cc r1 ch1 c1' fin show ?thesis by blast
        qed
      qed
    qed
  qed
qed (fact assms)


subsection \<open>Table splitting: when the split returns\<close>

lemma takeWhile_ge1: "rs \<noteq> [] \<Longrightarrow> P (hd rs) \<Longrightarrow> 1 \<le> length (takeWhile P rs)"
  by (cases rs) simp_all

lemma takeWhile_ge2:
  "1 < length rs \<Longrightarrow> P (rs ! 0) \<Longrightarrow> P (rs ! 1) \<Longrightarrow> 2 \<le> length (takeWhile P rs)"
proof -
  assume a: "1 < length rs" "P (rs ! 0)" "P (rs ! 1)"
  then obtain x y zs where "rs = x # y # zs"
    by (cases rs; cases "tl rs") auto
  with a show ?thesis by simp
qed

lemma resetRowsY_loop_nth:
  "i < length rs \<Longrightarrow>
     OuterHeight (calc (resetRowsY_loop rs y ! i)) = OuterHeight (calc (rs ! i))
     \<and> Children (resetRowsY_loop rs y ! i) = Children (rs ! i)"
proof (induction rs arbitrary: y i)
  case Nil
  then show ?case by simp
next
  case (Cons r rs)
  show ?case
  proof (cases i)
    case 0
    then show ?thesis
      by (simp add: Let_def adjustCalculatedY_keeps)
  next
    case (Suc j)
    with Cons.prems have "j < length rs" by simp
    from Cons.IH [OF this] Suc show ?thesis
      by (simp add: Let_def)
  qed
qed

lemma resetRowsY_loop_OuterY0:
  "rs \<noteq> [] \<Longrightarrow> OuterY (calc (resetRowsY_loop rs y ! 0)) = y"
  by (cases rs) (simp_all add: Let_def adjustCalculatedY_keeps)

lemma resetRowsY_loop_OuterY1:
  "1 < length rs \<Longrightarrow>
     OuterY (calc (resetRowsY_loop rs y ! 1)) = y + OuterHeight (calc (rs ! 0))"
proof -
  assume "1 < length rs"
  then obtain a b cs where rs: "rs = a # b # cs"
    by (cases rs; cases "tl rs") auto
  show ?thesis
    by (simp add: rs Let_def adjustCalculatedY_keeps)
qed

lemma nextClone_Children:
  "Children (nextClone table headerRow remainingRows n)
     = resetRowsY_loop (case headerRow of Some h \<Rightarrow> h # remainingRows
                        | None \<Rightarrow> remainingRows) 0"
  by (simp add: nextClone_def resetRowsY_def Let_def adjustCalculatedY_keeps)

lemma setAlternateColor_cells:
  "length (setAlternateColor rs ac) = length rs"
  "i < length rs \<Longrightarrow>
     length (Children (setAlternateColor rs ac ! i)) = length (Children (rs ! i))"
  by (auto simp add: setAlternateColor_def nth_enumerate_eq)

lemma fillClone_Inr:
  assumes "CarryColumn (attrs table) \<ge> 0"
    and "\<forall>row \<in> set (rows st). nat (CarryColumn (attrs table)) < length (Children row)"
  shows "\<exists>t3 c1. fillClone l table st index = Inr (t3, c1)"
proof -
  define currentRows where
    "currentRows = setAlternateColor (take index (rows st)) (AlternateColor (attrs table))"
  have "nat (CarryColumn (attrs table)) < length (Children row)"
    if "row \<in> set currentRows" for row
  proof -
    from that obtain i where i: "i < length currentRows" "row = currentRows ! i"
      by (auto simp add: in_set_conv_nth)
    then have it: "i < length (take index (rows st))"
      by (simp add: currentRows_def setAlternateColor_cells(1))
    then have "take index (rows st) ! i \<in> set (rows st)"
      by (metis in_set_takeD nth_mem)
    with assms(2) it i(2) show ?thesis
      by (simp add: currentRows_def setAlternateColor_cells(2))
  qed
  then obtain s where s: "getColumnSum l currentRows (CarryColumn (attrs table)) = Inr s"
    using assms(1) by (auto simp add: getColumnSum_def)
  have eq: "fillClone l table st index
              = (case getColumnSum l currentRows (CarryColumn (attrs table)) of
                   Inl e \<Rightarrow> Inl e
                 | Inr s \<Rightarrow>
                     Inr (map_attrs (\<lambda>a. a\<lparr>CarryLast := carryLast st,
                            CarryNext := Some (carryValue (carryLast st) + s)\<rparr>)
                           (recalculateFromInnerHeight
            (set_calc ((calc (set_Children currentRows
                 (map_attrs (\<lambda>a. a\<lparr>PageNumber := pageIndex st\<rparr>) (currentTable st))))
                   \<lparr>InnerHeight := foldl (\<lambda>h row. h + OuterHeight (calc row)) 0 currentRows\<rparr>)
               (set_Children currentRows
                 (map_attrs (\<lambda>a. a\<lparr>PageNumber := pageIndex st\<rparr>) (currentTable st))))),
                          Some (carryValue (carryLast st) + s)))"
    using assms(1)
    unfolding fillClone_def Let_def currentRows_def carryValue_def
    by simp
  show ?thesis
    unfolding eq s by (simp only: sum.case) blast
qed

lemma splitTable_loop_step:
  assumes inv: "splitInv table headerRow h st"
    and col: "CarryColumn (attrs table) \<ge> 0"
  shows "(\<exists>stf. splitTable_loop l table headerRow h st = Some (Inr stf) \<and> rows stf = [])
       \<or> (\<exists>st2. splitTable_loop l table headerRow h st
                   = splitTable_loop l table headerRow h st2
                \<and> splitInv table headerRow h st2 \<and> splitNormal headerRow st2
                \<and> (splitNormal headerRow st \<longrightarrow> length (rows st2) < length (rows st)))"
proof -
  define fit where
    "fit = (\<lambda>row. \<not> (currentY st + OuterY (calc row) + OuterHeight (calc row) > h))"
  define index where "index = length (takeWhile fit (rows st))"
  define rs where "rs = rows st"
  from inv have rs0: "rs \<noteq> []"
    and cells: "\<forall>row \<in> set rs. nat (CarryColumn (attrs table)) < length (Children row)"
    and first: "fit (hd rs)"
    by (simp_all add: splitInv_def rs_def fit_def)
  have i1: "1 \<le> index"
    using takeWhile_ge1 [of rs fit] rs0 first by (simp add: index_def rs_def)
  have ile: "index \<le> length rs"
    by (simp add: index_def rs_def length_takeWhile_le)
  obtain t3 c1 where F: "fillClone l table st index = Inr (t3, c1)"
    using fillClone_Inr [OF col, of st l index] cells by (auto simp add: rs_def)
  define st2 where
    "st2 = \<lparr>rows = Children (nextClone table headerRow (drop index rs) (pageIndex st + 1)),
            currentTable = nextClone table headerRow (drop index rs) (pageIndex st + 1),
            currentY = 0, pageIndex = pageIndex st + 1, carryLast = c1,
            filled = filled st @ [t3], pageBreak = True\<rparr>"
  have unfold: "splitTable_loop l table headerRow h st
                  = (if drop index rs = []
                     then Some (Inr (st\<lparr>rows := [], currentTable := t3, carryLast := c1\<rparr>))
                     else splitTable_loop l table headerRow h st2)"
    apply (subst splitTable_loop.simps)
    unfolding Let_def fit_def [symmetric] index_def [symmetric]
    using i1 F by (simp add: rs_def st2_def)
  show ?thesis
  proof (cases "drop index rs = []")
    case True
    have a: "splitTable_loop l table headerRow h st
            = Some (Inr (st\<lparr>rows := [], currentTable := t3, carryLast := c1\<rparr>))"
      by (simp add: unfold True)
    show ?thesis
      by (rule disjI1,
          rule exI [of _ "st\<lparr>rows := [], currentTable := t3, carryLast := c1\<rparr>"])
         (simp add: a)
  next
    case False
    then have len: "index < length rs" by simp
    define rem where "rem = drop index rs"
    have remsub: "set rem \<subseteq> set (tl rs)"
    proof -
      have "rem = drop (index - 1) (tl rs)"
        using i1 by (simp add: rem_def drop_Suc [symmetric] del: drop_Suc)
      then show ?thesis by (metis set_drop_subset)
    qed
    have remsub': "set rem \<subseteq> set rs"
      by (simp add: rem_def set_drop_subset)
    have rem0: "rem \<noteq> []" using False by (simp add: rem_def)
    define rows1 where
      "rows1 = (case headerRow of Some hr \<Rightarrow> hr # rem | None \<Rightarrow> rem)"
    have r2: "rows st2 = resetRowsY_loop rows1 0"
      by (cases headerRow) (simp_all add: st2_def nextClone_Children rows1_def rem_def)
    have rows10: "rows1 \<noteq> []"
      using rem0 by (simp add: rows1_def split: option.split)
    have nthp: "OuterHeight (calc (rows st2 ! i)) = OuterHeight (calc (rows1 ! i))"
      "Children (rows st2 ! i) = Children (rows1 ! i)" if "i < length rows1" for i
      using resetRowsY_loop_nth [OF that, of 0] by (simp_all add: r2)
    have l2: "length (rows st2) = length rows1"
      by (simp add: r2)
    have inset: "\<exists>r \<in> set rows1. OuterHeight (calc row) = OuterHeight (calc r)
                   \<and> Children row = Children r" if "row \<in> set (rows st2)" for row
    proof -
      from that obtain i where i: "i < length (rows st2)" "row = rows st2 ! i"
        by (auto simp add: in_set_conv_nth)
      then have "i < length rows1" by (simp add: l2)
      with nthp [of i] i(2) show ?thesis by (metis nth_mem)
    qed
    have insettl: "\<exists>r \<in> set (tl rows1). OuterHeight (calc row) = OuterHeight (calc r)"
      if "row \<in> set (tl (rows st2))" for row
    proof -
      from that obtain i where i: "i < length (tl (rows st2))" "row = tl (rows st2) ! i"
        by (auto simp add: in_set_conv_nth)
      then have si: "Suc i < length rows1" by (simp add: l2)
      have "row = rows st2 ! Suc i"
        using i by (simp add: nth_tl)
      with nthp(1) [OF si] have "OuterHeight (calc row) = OuterHeight (calc (tl rows1 ! i))"
        using si by (simp add: nth_tl)
      moreover have "tl rows1 ! i \<in> set (tl rows1)"
        using si by simp
      ultimately show ?thesis by blast
    qed
    have y0: "OuterY (calc (rows st2 ! 0)) = 0"
      using resetRowsY_loop_OuterY0 [OF rows10, of 0] by (simp add: r2)
    have y1: "OuterY (calc (rows st2 ! 1)) = OuterHeight (calc (rows st2 ! 0))"
      if "1 < length (rows st2)"
      using resetRowsY_loop_OuterY1 [of rows1 0] that nthp(1) [of 0] rows10 by (simp add: r2)
    have rows20: "rows st2 \<noteq> []"
      using rows10 l2 by (metis length_0_conv)
    have hd2: "hd (rows st2) = rows st2 ! 0"
      using rows20 by (simp add: hd_conv_nth)
    have cy: "currentY st2 = 0" by (simp add: st2_def)
    have eq: "splitTable_loop l table headerRow h st
                = splitTable_loop l table headerRow h st2"
      using len by (simp add: unfold)
    show ?thesis
    proof (cases headerRow)
      case None
      then have r1: "rows1 = rem" by (simp add: rows1_def)
      from inv None have data: "\<forall>row \<in> set rs. OuterHeight (calc row) \<le> h"
        by (simp add: splitInv_def rs_def)
      have a: "\<forall>row \<in> set (rows st2). OuterHeight (calc row) \<le> h"
        using inset data remsub' r1 by fastforce
      have b: "\<forall>row \<in> set (rows st2).
                 nat (CarryColumn (attrs table)) < length (Children row)"
        using inset cells remsub' r1 by fastforce
      have c: "OuterHeight (calc (rows st2 ! 0)) \<le> h"
        using a rows20 by simp
      have inv2: "splitInv table headerRow h st2"
        using a b c y0 cy rows20
        by (simp add: splitInv_def None hd2)
      have norm2: "splitNormal headerRow st2"
        using y0 y1 cy by (simp add: splitNormal_def None)
      have less: "length (rows st2) < length (rows st)"
        using i1 len by (simp add: l2 r1 rem_def rs_def)
      show ?thesis
      proof (intro disjI2 exI [of _ st2] conjI impI)
        show "splitTable_loop l table headerRow h st
                = splitTable_loop l table headerRow h st2" by (rule eq)
        show "splitInv table headerRow h st2" by (rule inv2)
        show "splitNormal headerRow st2" by (rule norm2)
        show "length (rows st2) < length (rows st)" by (rule less)
      qed
    next
      case (Some hr)
      then have r1: "rows1 = hr # rem" by (simp add: rows1_def)
      from inv Some have hcell: "nat (CarryColumn (attrs table)) < length (Children hr)"
        and hfit: "OuterHeight (calc hr) \<le> h"
        and data: "\<forall>row \<in> set (tl rs). OuterHeight (calc hr) + OuterHeight (calc row) \<le> h"
        by (simp_all add: splitInv_def rs_def)
      have h0: "OuterHeight (calc (rows st2 ! 0)) = OuterHeight (calc hr)"
        using nthp(1) [of 0] by (simp add: r1)
      have a: "\<forall>row \<in> set (tl (rows st2)). OuterHeight (calc hr) + OuterHeight (calc row) \<le> h"
        using insettl data remsub r1 by fastforce
      have b: "\<forall>row \<in> set (rows st2).
                 nat (CarryColumn (attrs table)) < length (Children row)"
        using inset cells hcell remsub' r1 by fastforce
      have inv2: "splitInv table headerRow h st2"
        using a b h0 hfit hcell y0 cy rows20
        by (simp add: splitInv_def Some hd2)
      have norm2: "splitNormal headerRow st2"
        using y0 y1 cy h0 by (simp add: splitNormal_def Some)
      have less: "length (rows st2) < length (rows st)" if n: "splitNormal headerRow st"
      proof -
        from n Some have cy0: "currentY st = 0" and ry0: "OuterY (calc (rs ! 0)) = 0"
          and ry1: "1 < length rs \<longrightarrow> OuterY (calc (rs ! 1)) = OuterHeight (calc (rs ! 0))"
          and rh: "OuterHeight (calc (rs ! 0)) = OuterHeight (calc hr)"
          by (simp_all add: splitNormal_def rs_def)
        have l1: "1 < length rs" using i1 len by simp
        have f0: "fit (rs ! 0)"
          using first rs0 by (simp add: hd_conv_nth)
        from l1 obtain x y zs where "rs = x # y # zs"
          by (cases rs; cases "tl rs") auto
        then have "rs ! 1 \<in> set (tl rs)"
          by simp
        with data have "OuterHeight (calc hr) + OuterHeight (calc (rs ! 1)) \<le> h" by blast
        then have f1: "fit (rs ! 1)"
          using cy0 ry1 l1 rh by (simp add: fit_def)
        have "2 \<le> index"
          using takeWhile_ge2 [OF l1 f0 f1] by (simp add: index_def rs_def)
        then show ?thesis
          using len by (simp add: l2 r1 rem_def rs_def)
      qed
      show ?thesis
      proof (intro disjI2 exI [of _ st2] conjI impI)
        show "splitTable_loop l table headerRow h st
                = splitTable_loop l table headerRow h st2" by (rule eq)
        show "splitInv table headerRow h st2" by (rule inv2)
        show "splitNormal headerRow st2" by (rule norm2)
        show "length (rows st2) < length (rows st)" if "splitNormal headerRow st"
          using that by (rule less)
      qed
    qed
  qed
qed

lemma splitTable_loop_returns_normal:
  assumes "splitInv table headerRow h st" and "splitNormal headerRow st"
    and "CarryColumn (attrs table) \<ge> 0"
  shows "\<exists>stf. splitTable_loop l table headerRow h st = Some (Inr stf) \<and> rows stf = []"
  using assms(1,2)
proof (induction "length (rows st)" arbitrary: st rule: less_induct)
  case less
  from splitTable_loop_step [OF less.prems(1) assms(3), of l]
  show ?case
  proof
    assume "\<exists>stf. splitTable_loop l table headerRow h st = Some (Inr stf) \<and> rows stf = []"
    then show ?thesis .
  next
    assume "\<exists>st2. splitTable_loop l table headerRow h st
                   = splitTable_loop l table headerRow h st2
                \<and> splitInv table headerRow h st2 \<and> splitNormal headerRow st2
                \<and> (splitNormal headerRow st \<longrightarrow> length (rows st2) < length (rows st))"
    then obtain st2 where s: "splitTable_loop l table headerRow h st
                   = splitTable_loop l table headerRow h st2"
      and i: "splitInv table headerRow h st2" and n: "splitNormal headerRow st2"
      and m: "length (rows st2) < length (rows st)"
      using less.prems(2) by blast
    from less.hyps [OF m i n] s show ?thesis by simp
  qed
qed

lemma splitTable_loop_returns:
  assumes "splitInv table headerRow h st" and "CarryColumn (attrs table) \<ge> 0"
  shows "\<exists>stf. splitTable_loop l table headerRow h st = Some (Inr stf) \<and> rows stf = []"
proof -
  from splitTable_loop_step [OF assms, of l]
  show ?thesis
  proof
    assume "\<exists>stf. splitTable_loop l table headerRow h st = Some (Inr stf) \<and> rows stf = []"
    then show ?thesis .
  next
    assume "\<exists>st2. splitTable_loop l table headerRow h st
                   = splitTable_loop l table headerRow h st2
                \<and> splitInv table headerRow h st2 \<and> splitNormal headerRow st2
                \<and> (splitNormal headerRow st \<longrightarrow> length (rows st2) < length (rows st))"
    then obtain st2 where s: "splitTable_loop l table headerRow h st
                   = splitTable_loop l table headerRow h st2"
      and i: "splitInv table headerRow h st2" and n: "splitNormal headerRow st2"
      by blast
    from splitTable_loop_returns_normal [OF i n assms(2), of l] s show ?thesis by simp
  qed
qed

lemma splitTable_returns:
  assumes "CarryColumn (attrs w) \<ge> 0"
    and "rowsHaveRoom w currentY0 (splitInnerHeight w page)"
    and "rowsHaveCell w"
  shows "\<exists>r. splitTable l w currentY0 page = Some (Inr r) \<and> pending r = []"
proof -
  define table where "table = set_Children [] w"
  define headerRow where
    "headerRow = (if length (Columns w) > 0 then Some (Children w ! 0) else None)"
  define h where "h = splitInnerHeight w page"
  define st0 where
    "st0 = \<lparr>rows = Children w, currentTable = table, currentY = currentY0,
                      pageIndex = 0, carryLast = None, filled = [], pageBreak = False\<rparr>"
  from assms(2) have c0: "Children w \<noteq> []"
    by (simp add: rowsHaveRoom_def)
  have tcol: "CarryColumn (attrs table) = CarryColumn (attrs w)"
    by (simp add: table_def)
  have inv: "splitInv table headerRow h st0"
    using assms(2,3) c0
    by (auto simp add: splitInv_def rowsHaveRoom_def rowsHaveCell_def st0_def tcol
        headerRow_def h_def hd_conv_nth split: if_splits)
  from splitTable_loop_returns [OF inv, of l] assms(1) tcol
  obtain stf where loop: "splitTable_loop l table headerRow h st0 = Some (Inr stf)"
    and fin: "rows stf = []"
    by auto
  have "splitTable l w currentY0 page
          = Some (Inr \<lparr>clones = filled stf
                          @ [map_attrs (\<lambda>a. a\<lparr>CarryNext := None\<rparr>) (currentTable stf)],
                       tablePageBreak = pageBreak stf, pending = rows stf\<rparr>)"
    using c0 loop
    unfolding splitTable_def Let_def table_def [symmetric] headerRow_def [symmetric]
      st0_def [symmetric] h_def splitInnerHeight_def marginV_def
    by simp
  with fin show ?thesis by simp
qed

lemma splitTable_loop_unfold:
  assumes "index = length (takeWhile
                     (\<lambda>row. \<not> (currentY st + OuterY (calc row) + OuterHeight (calc row) > h))
                     (rows st))"
    and "1 \<le> index"
    and "fillClone l table st index = Inr (t3, c1)"
    and "drop index (rows st) \<noteq> []"
  shows "splitTable_loop l table headerRow h st
           = splitTable_loop l table headerRow h
               \<lparr>rows = Children (nextClone table headerRow (drop index (rows st))
                                   (pageIndex st + 1)),
                currentTable = nextClone table headerRow (drop index (rows st))
                                 (pageIndex st + 1),
                currentY = 0, pageIndex = pageIndex st + 1, carryLast = c1,
                filled = filled st @ [t3], pageBreak = True\<rparr>"
  apply (subst splitTable_loop.simps)
  unfolding Let_def assms(1) [symmetric]
  using assms(2,3,4) by simp

lemma takeWhile_eq1:
  "2 \<le> length rs \<Longrightarrow> P (rs ! 0) \<Longrightarrow> \<not> P (rs ! 1) \<Longrightarrow> length (takeWhile P rs) = 1"
proof -
  assume a: "2 \<le> length rs" "P (rs ! 0)" "\<not> P (rs ! 1)"
  then obtain x y zs where "rs = x # y # zs"
    by (cases rs; cases "tl rs") auto
  with a show ?thesis by simp
qed

lemma splitTable_loop_stuck:
  assumes "splitTable_loop l table headerRow h st = Some res"
  shows "\<forall>hr. headerRow = Some hr \<longrightarrow> CarryColumn (attrs table) \<ge> 0 \<longrightarrow> currentY st = 0
           \<longrightarrow> stuckRows hr (CarryColumn (attrs table)) h (rows st) \<longrightarrow> False"
proof (induction l table headerRow h st res rule: splitTable_loop.raw_induct)
  case (1 loop l table headerRow h st res)
  define index where
    "index = length (takeWhile
                    (\<lambda>row. \<not> (currentY st + OuterY (calc row) + OuterHeight (calc row)
                                  > h)) (rows st))"
  note body = "1.hyps" [unfolded Let_def, folded index_def]
  show ?case
  proof (intro allI impI)
    fix hr
    assume hdr: "headerRow = Some hr" and cc: "CarryColumn (attrs table) \<ge> 0"
      and cy: "currentY st = 0"
      and stuck: "stuckRows hr (CarryColumn (attrs table)) h (rows st)"
    define rs where "rs = rows st"
    from stuck have l2: "2 \<le> length rs"
      and y0: "OuterY (calc (rs ! 0)) = 0"
      and h0: "OuterHeight (calc (rs ! 0)) = OuterHeight (calc hr)"
      and hfit: "OuterHeight (calc hr) \<le> h"
      and y1: "OuterY (calc (rs ! 1)) = OuterHeight (calc hr)"
      and nofit: "OuterHeight (calc hr) + OuterHeight (calc (rs ! 1)) > h"
      and hcell: "nat (CarryColumn (attrs table)) < length (Children hr)"
      and cells: "\<forall>row \<in> set rs. nat (CarryColumn (attrs table)) < length (Children row)"
      by (simp_all add: stuckRows_def rs_def)
    have i1: "index = 1"
      unfolding index_def rs_def [symmetric]
      using l2 y0 h0 hfit y1 nofit cy by (intro takeWhile_eq1) simp_all
    obtain t3 c1 where F: "fillClone l table st index = Inr (t3, c1)"
      using fillClone_Inr [OF cc, of st l index] cells by (auto simp add: rs_def)
    define rem where "rem = drop 1 rs"
    have rem0: "rem \<noteq> []" using l2 by (simp add: rem_def)
    define st2 where
      "st2 = \<lparr>rows = Children (nextClone table headerRow rem (pageIndex st + 1)),
              currentTable = nextClone table headerRow rem (pageIndex st + 1),
              currentY = 0, pageIndex = pageIndex st + 1, carryLast = c1,
              filled = filled st @ [t3], pageBreak = True\<rparr>"
    have rec: "loop l table headerRow h st2 = Some res"
      using body F rem0 by (simp add: i1 st2_def rem_def rs_def)
    define rows1 where "rows1 = hr # rem"
    have r2: "rows st2 = resetRowsY_loop rows1 0"
      by (simp add: st2_def nextClone_Children hdr rows1_def)
    have l1: "length rows1 = Suc (length rem)" "rows1 \<noteq> []" "1 < length rows1"
      using rem0 by (simp_all add: rows1_def)
    have n1: "rows1 ! 0 = hr" "rows1 ! 1 = rs ! 1"
      using l2 by (simp_all add: rows1_def rem_def)
    have set1: "set rows1 \<subseteq> insert hr (set rs)"
      using set_drop_subset [of 1 rs] by (auto simp add: rows1_def rem_def)
    have len2: "length (rows st2) = length rows1"
      by (simp add: r2)
    have nthp: "OuterHeight (calc (rows st2 ! i)) = OuterHeight (calc (rows1 ! i))"
      "Children (rows st2 ! i) = Children (rows1 ! i)" if "i < length rows1" for i
      using resetRowsY_loop_nth [OF that, of 0] by (simp_all add: r2)
    have cells2: "nat (CarryColumn (attrs table)) < length (Children row)"
      if "row \<in> set (rows st2)" for row
    proof -
      from that obtain i where i: "i < length (rows st2)" "row = rows st2 ! i"
        by (auto simp add: in_set_conv_nth)
      then have il: "i < length rows1" by (simp add: len2)
      have "rows1 ! i \<in> set rows1"
        using il by (rule nth_mem)
      then have "nat (CarryColumn (attrs table)) < length (Children (rows1 ! i))"
        using hcell cells set1 by auto
      with nthp(2) [OF il] i(2) show ?thesis by simp
    qed
    have a: "OuterY (calc (rows st2 ! 0)) = 0"
      using resetRowsY_loop_OuterY0 [OF l1(2), of 0] by (simp add: r2)
    have b: "OuterY (calc (rows st2 ! 1)) = OuterHeight (calc hr)"
      using resetRowsY_loop_OuterY1 [OF l1(3), of 0] n1 by (simp add: r2)
    have c: "OuterHeight (calc (rows st2 ! 0)) = OuterHeight (calc hr)"
      using nthp(1) [of 0] l1 n1 by simp
    have d: "OuterHeight (calc (rows st2 ! 1)) = OuterHeight (calc (rs ! 1))"
      using nthp(1) [of 1] l1 n1 by simp
    have e: "2 \<le> length (rows st2)"
      using l1(3) by (simp add: len2)
    have stuck2: "stuckRows hr (CarryColumn (attrs table)) h (rows st2)"
      using a b c d e hfit nofit hcell cells2 by (simp add: stuckRows_def)
    have cy2: "currentY st2 = 0" by (simp add: st2_def)
    from "1.IH" [OF rec] hdr cc cy2 stuck2 show False by blast
  qed
qed (fact assms)

lemma splitTable_loop_never_returns:
  assumes "CarryColumn (attrs table) \<ge> 0" and "currentY st = 0"
    and "stuckRows hr (CarryColumn (attrs table)) h (rows st)"
  shows "splitTable_loop l table (Some hr) h st = None"
proof (cases "splitTable_loop l table (Some hr) h st")
  case None
  then show ?thesis .
next
  case (Some res)
  from splitTable_loop_stuck [OF Some] assms show ?thesis by blast
qed


lemma take_snoc_le: "i \<le> length ds \<Longrightarrow> take i (ds @ [t]) = take i ds"
  by simp

lemma carryAfter_take_Suc:
  assumes "i < length ds"
  shows "carryAfter l column (take (Suc i) ds)
           = Some (carryValue (carryAfter l column (take i ds)) + carrySum l column (ds ! i))"
  using assms
  by (simp add: take_Suc_conv_app_nth carryAfter_def carryValue_def)

lemma splitTable_carry_chain:
  assumes "splitTable l w currentY0 page = Some (Inr r)"
    and "pending r = []"
    and "Children w \<noteq> []"
    and "CarryColumn (attrs w) \<ge> 0"
  shows "clones r \<noteq> []
       \<and> CarryLast (attrs (hd (clones r))) = None
       \<and> (\<forall>i. Suc i < length (clones r) \<longrightarrow>
              CarryNext (attrs (clones r ! i))
                = Some (carryValue (CarryLast (attrs (clones r ! i)))
                        + carrySum l (CarryColumn (attrs w)) (clones r ! i))
              \<and> CarryLast (attrs (clones r ! Suc i)) = CarryNext (attrs (clones r ! i)))
       \<and> CarryNext (attrs (last (clones r))) = None
       \<and> sum_list (map (carrySum l (CarryColumn (attrs w))) (clones r))
           = carryValue (CarryLast (attrs (last (clones r))))
             + carrySum l (CarryColumn (attrs w)) (last (clones r))"
proof -
  define col where "col = CarryColumn (attrs w)"
  define table where "table = set_Children [] w"
  define headerRow where
    "headerRow = (if length (Columns w) > 0 then Some (Children w ! 0) else None)"
  define innerHeight where
    "innerHeight = InnerHeight (calc (PageWidget page))
                     - (case Margin (attrs w) of None \<Rightarrow> 0 | Some m \<Rightarrow> Top m + Bottom m)"
  define st0 where
    "st0 = \<lparr>rows = Children w, currentTable = table, currentY = currentY0,
                      pageIndex = 0, carryLast = None, filled = [], pageBreak = False\<rparr>"
  have tcol: "CarryColumn (attrs table) = col"
    by (simp add: table_def col_def)
  from assms(1,3) have run:
    "(case splitTable_loop l table headerRow innerHeight st0 of
                None \<Rightarrow> None
              | Some (Inl e) \<Rightarrow> Some (Inl e)
              | Some (Inr st) \<Rightarrow>
                  Some (Inr \<lparr>clones = filled st
                                @ [map_attrs (\<lambda>a. a\<lparr>CarryNext := None\<rparr>) (currentTable st)],
                             tablePageBreak = pageBreak st,
                             pending = rows st\<rparr>)) = Some (Inr r)"
    unfolding splitTable_def Let_def table_def headerRow_def innerHeight_def st0_def
    by simp
  then obtain stf where
    loop: "splitTable_loop l table headerRow innerHeight st0 = Some (Inr stf)"
    and r: "r = \<lparr>clones = filled stf
                     @ [map_attrs (\<lambda>a. a\<lparr>CarryNext := None\<rparr>) (currentTable stf)],
                  tablePageBreak = pageBreak stf, pending = rows stf\<rparr>"
    by (auto split: option.splits sum.splits)
  define ds where "ds = filled stf"
  define t where "t = currentTable stf"
  define t1 where "t1 = map_attrs (\<lambda>a. a\<lparr>CarryNext := None\<rparr>) t"
  have cs: "clones r = ds @ [t1]"
    by (simp add: r ds_def t_def t1_def)
  have fin: "rows stf = []"
    using assms(2) by (simp add: r)
  have "carryChain l (CarryColumn (attrs table)) (filled stf @ [currentTable stf])"
    using splitTable_loop_chain [OF loop] assms(3,4) fin
    by (simp add: st0_def tcol col_def carryChain_def carryAfter_def)
  then have chain: "carryChain l col (ds @ [t])"
    by (simp add: tcol ds_def t_def)
  have dlast: "CarryLast (attrs (ds ! i)) = carryAfter l col (take i ds)"
    and dnext: "CarryNext (attrs (ds ! i)) = carryAfter l col (take (Suc i) ds)"
    if "i < length ds" for i
    using chain [unfolded carryChain_def, rule_format, of i] that
    by (simp_all add: nth_append)
  have tlast: "CarryLast (attrs t) = carryAfter l col ds"
    using chain [unfolded carryChain_def, rule_format, of "length ds"] by simp
  have t1last: "CarryLast (attrs t1) = carryAfter l col ds"
    using tlast by (simp add: t1_def)
  have t1next: "CarryNext (attrs t1) = None"
    by (simp add: t1_def)
  have t1sum: "carrySum l col t1 = carrySum l col t"
    by (simp add: carrySum_def t1_def)
  have 1: "clones r \<noteq> []" by (simp add: cs)
  have 2: "CarryLast (attrs (hd (clones r))) = None"
  proof (cases ds)
    case Nil
    then show ?thesis using t1last by (simp add: cs carryAfter_def)
  next
    case (Cons d ds')
    then show ?thesis using dlast [of 0] by (simp add: cs carryAfter_def)
  qed
  have 3: "CarryNext (attrs (clones r ! i))
                = Some (carryValue (CarryLast (attrs (clones r ! i)))
                        + carrySum l col (clones r ! i))
              \<and> CarryLast (attrs (clones r ! Suc i)) = CarryNext (attrs (clones r ! i))"
    if "Suc i < length (clones r)" for i
  proof -
    from that have i: "i < length ds" by (simp add: cs)
    have a: "clones r ! i = ds ! i" using i by (simp add: cs nth_append)
    have n: "CarryNext (attrs (ds ! i))
               = Some (carryValue (CarryLast (attrs (ds ! i))) + carrySum l col (ds ! i))"
      using dnext [OF i] dlast [OF i] carryAfter_take_Suc [OF i, of l col] by simp
    have b: "CarryLast (attrs (clones r ! Suc i)) = carryAfter l col (take (Suc i) ds)"
    proof (cases "Suc i < length ds")
      case True
      then show ?thesis using dlast [of "Suc i"] by (simp add: cs nth_append)
    next
      case False
      with i have "Suc i = length ds" by simp
      then show ?thesis using t1last by (simp add: cs nth_append)
    qed
    show ?thesis using a n b dnext [OF i] by simp
  qed
  have 4: "CarryNext (attrs (last (clones r))) = None"
    using t1next by (simp add: cs)
  have 5: "sum_list (map (carrySum l col) (clones r))
           = carryValue (CarryLast (attrs (last (clones r)))) + carrySum l col (last (clones r))"
    using t1last by (simp add: cs carryValue_carryAfter)
  from 1 2 3 4 5 show ?thesis
    unfolding col_def by blast
qed


text \<open>
  C3 (as the code has it). Take a table with a carry column whose rows each have a cell
  in that column, whose first row has room where the table starts, and whose rows each
  have room on a page of their own, below the header row when the table has columns.
  Then the split returns, having used up the rows, and the clones in page order are such
  that: the first has no \<open>carryLast\<close>; every clone but the last has \<open>carryNext\<close> = its
  \<open>carryLast\<close> (0 when unset) + the carry sum of its rows, and the next clone's \<open>carryLast\<close>
  is that \<open>carryNext\<close>; the last clone has no \<open>carryNext\<close>; and the carry sums of all
  clones add up to the last clone's \<open>carryLast\<close> + its own carry sum. The carry sum of a
  clone counts, for each row whose cell in the carry column is not a header cell and has
  exactly one value line, the number the formatter parses from that line.
\<close>

theorem table_carry_chain:
  assumes "CarryColumn (attrs w) \<ge> 0"
    and "rowsHaveRoom w currentY0 (splitInnerHeight w page)"
    and "rowsHaveCell w"
  shows "\<exists>r. splitTable l w currentY0 page = Some (Inr r)
       \<and> pending r = []
       \<and> clones r \<noteq> []
       \<and> CarryLast (attrs (hd (clones r))) = None
       \<and> (\<forall>i. Suc i < length (clones r) \<longrightarrow>
              CarryNext (attrs (clones r ! i))
                = Some (carryValue (CarryLast (attrs (clones r ! i)))
                        + carrySum l (CarryColumn (attrs w)) (clones r ! i))
              \<and> CarryLast (attrs (clones r ! Suc i)) = CarryNext (attrs (clones r ! i)))
       \<and> CarryNext (attrs (last (clones r))) = None
       \<and> sum_list (map (carrySum l (CarryColumn (attrs w))) (clones r))
           = carryValue (CarryLast (attrs (last (clones r))))
             + carrySum l (CarryColumn (attrs w)) (last (clones r))"
proof -
  from splitTable_returns [OF assms, of l]
  obtain r where run: "splitTable l w currentY0 page = Some (Inr r)"
    and pend: "pending r = []"
    by blast
  from assms(2) have c0: "Children w \<noteq> []"
    by (simp add: rowsHaveRoom_def)
  note chain = splitTable_carry_chain [OF run pend c0 assms(1)]
  show ?thesis
    by (rule exI [of _ r]) (intro conjI run pend chain [THEN conjunct1]
        chain [THEN conjunct2, THEN conjunct1]
        chain [THEN conjunct2, THEN conjunct2, THEN conjunct1]
        chain [THEN conjunct2, THEN conjunct2, THEN conjunct2, THEN conjunct1]
        chain [THEN conjunct2, THEN conjunct2, THEN conjunct2, THEN conjunct2])
qed

theorem table_carry_chain_witness:
  "rowsHaveRoom headedCarryTable 0
     (splitInnerHeight headedCarryTable (pageOf 100 [headedCarryTable]))
   \<and> cloneCarries (splitOn100 headedCarryTable) = [(None, Some 30), (Some 30, None)]
   \<and> sum_list (map (carrySum (newLayouter (Some digitsFormatter)) 0)
                  (clones (projr (the (splitOn100 headedCarryTable))))) = 100
   \<and> carryValue (CarryLast (attrs (last (clones (projr (the (splitOn100 headedCarryTable)))))))
       = 30"
proof -
  define L where "L = newLayouter (Some digitsFormatter)"
  define PG where "PG = pageOf 100 [headedCarryTable]"
  define R where "R = projr (the (splitOn100 headedCarryTable))"
  have c: "CarryColumn (attrs headedCarryTable) \<ge> 0"
    "CarryColumn (attrs headedCarryTable) = 0"
    by code_simp+
  have room: "rowsHaveRoom headedCarryTable 0 (splitInnerHeight headedCarryTable PG)"
    unfolding PG_def by code_simp
  have cells: "rowsHaveCell headedCarryTable"
    by code_simp
  from table_carry_chain [OF c(1) room cells, of L]
  obtain r where run: "splitTable L headedCarryTable 0 PG = Some (Inr r)"
    and tot: "sum_list (map (carrySum L (CarryColumn (attrs headedCarryTable))) (clones r))
                = carryValue (CarryLast (attrs (last (clones r))))
                  + carrySum L (CarryColumn (attrs headedCarryTable)) (last (clones r))"
    by blast
  have rR: "r = R"
    using run by (simp add: R_def splitOn100_def L_def PG_def)
  have own: "carrySum L 0 (last (clones R)) = 70"
    unfolding R_def L_def by code_simp
  have cc: "cloneCarries (splitOn100 headedCarryTable) = [(None, Some 30), (Some 30, None)]"
    by code_simp
  have lastc: "carryValue (CarryLast (attrs (last (clones R)))) = 30"
    unfolding R_def by code_simp
  from tot own lastc have "sum_list (map (carrySum L 0) (clones R)) = 100"
    unfolding c(2) rR by simp
  with cc lastc room show ?thesis
    unfolding R_def L_def PG_def by simp
qed

text \<open>
  C3 as stated fails three times. A carry cell with the two value lines 1 and 2 adds
  nothing to the carry, although its first line parses as 1: the first clone's \<open>carryNext\<close>
  is 0. When the second row of a table without header row has room on no page, the first
  clone keeps its \<open>carryNext\<close> of 7 and the clone after it, which is the last, has no
  \<open>carryLast\<close>. And when a table has a header row and a row, 200 high, with room on no page
  of height 100 below the header row, the split does not return: there are no clones.
\<close>

theorem table_carry_counterexample:
  "cloneCarries (splitOn100 twoLineTable) = [(None, Some 0), (Some 0, None)]
   \<and> digitsFormatter (str ''1'') = Some 1
   \<and> cloneCarries (splitOn100 tallRowTable) = [(None, Some 7), (None, None)]
   \<and> splitOn100 headedTallRowTable = None"
proof -
  define L where "L = newLayouter (Some digitsFormatter)"
  define T where "T = headedTallRowTable"
  define table where "table = set_Children [] T"
  define hr where "hr = Children T ! 0"
  define st0 where
    "st0 = \<lparr>rows = Children T, currentTable = table, currentY = 0,
            pageIndex = 0, carryLast = None, filled = [], pageBreak = False\<rparr>"
  have a: "cloneCarries (splitOn100 twoLineTable) = [(None, Some 0), (Some 0, None)]"
    "digitsFormatter (str ''1'') = Some 1"
    "cloneCarries (splitOn100 tallRowTable) = [(None, Some 7), (None, None)]"
    by code_simp+
  have cc: "CarryColumn (attrs table) \<ge> 0" "CarryColumn (attrs table) = 0"
    unfolding table_def T_def by code_simp+
  have cols: "length (Columns T) > 0" "length (Children T) \<noteq> 0"
    unfolding T_def by code_simp+
  have hh: "InnerHeight (calc (PageWidget (pageOf 100 [T])))
              - (case Margin (attrs T) of None \<Rightarrow> 0 | Some m \<Rightarrow> Top m + Bottom m) = 100"
    unfolding T_def by code_simp
  have i0: "length (takeWhile
                     (\<lambda>row. \<not> (currentY st0 + OuterY (calc row) + OuterHeight (calc row) > 100))
                     (rows st0)) = 2"
    unfolding st0_def table_def T_def by code_simp
  have cells: "\<forall>row \<in> set (rows st0). nat (CarryColumn (attrs table)) < length (Children row)"
    unfolding st0_def table_def T_def by code_simp
  obtain t3 c1 where F: "fillClone L table st0 2 = Inr (t3, c1)"
    using fillClone_Inr [OF cc(1) cells, of L 2] by blast
  have d: "drop 2 (rows st0) \<noteq> []"
    unfolding st0_def table_def T_def by code_simp
  define st1 where
    "st1 = \<lparr>rows = Children (nextClone table (Some hr) (drop 2 (rows st0)) (pageIndex st0 + 1)),
            currentTable = nextClone table (Some hr) (drop 2 (rows st0)) (pageIndex st0 + 1),
            currentY = 0, pageIndex = pageIndex st0 + 1, carryLast = c1,
            filled = filled st0 @ [t3], pageBreak = True\<rparr>"
  have one: "splitTable_loop L table (Some hr) 100 st0 = splitTable_loop L table (Some hr) 100 st1"
    unfolding st1_def
    by (rule splitTable_loop_unfold [OF i0 [symmetric] _ F d]) simp
  have "stuckRows hr 0 100
          (Children (nextClone table (Some hr) (drop 2 (Children T)) 1))"
    unfolding hr_def table_def T_def by code_simp
  then have stuck: "stuckRows hr (CarryColumn (attrs table)) 100 (rows st1)"
    by (simp add: st1_def st0_def cc(2))
  have "splitTable_loop L table (Some hr) 100 st1 = None"
    by (rule splitTable_loop_never_returns [OF cc(1) _ stuck]) (simp add: st1_def)
  with one have none: "splitTable_loop L table (Some hr) 100 st0 = None"
    by simp
  have "splitOn100 T = None"
    unfolding splitOn100_def splitTable_def Let_def hh
    using cols none
    by (simp add: L_def table_def hr_def st0_def)
  with a show ?thesis
    unfolding T_def by simp
qed


subsection \<open>Table splitting: alternate colours\<close>

lemma setAlternateColor_rows:
  assumes "i < length rs"
  shows "length (setAlternateColor rs (Some ac)) = length rs"
    and "i = 0 \<Longrightarrow> setAlternateColor rs (Some ac) ! i = rs ! i"
    and "odd i \<Longrightarrow>
           \<forall>cell \<in> set (Children (setAlternateColor rs (Some ac) ! i)).
             BackgroundColor (attrs cell) = None"
    and "even i \<Longrightarrow> 0 < i \<Longrightarrow>
           map (\<lambda>cell. BackgroundColor (attrs cell))
               (Children (setAlternateColor rs (Some ac) ! i))
             = map (\<lambda>cell. if BackgroundColor (attrs cell) = None then Some ac
                            else BackgroundColor (attrs cell)) (Children (rs ! i))"
  using assms
  by (auto simp add: setAlternateColor_def nth_enumerate_eq odd_iff_mod_2_eq_one)

text \<open>
  C7. A table with an alternate colour whose second row, 200 high, fits no page of inner
  height 100, and whose third row was coloured when the table was parsed: the split ends
  at the row that does not fit, and the last clone keeps the second and third rows as they
  were, so its row at index 1 has a cell with the alternate colour as background.
\<close>

theorem alternate_color_kept_on_odd_row:
  "cloneColors (splitOn100 tallRowTable) = [[[None]], [[None], [Some grey]]]"
  by code_simp


subsection \<open>Page numbers\<close>

lemma ResetPageNumbers_copyPage:
  "ResetPageNumbers (copyPage page copyReset) = (copyReset \<and> ResetPageNumbers page)"
  by (simp add: copyPage_def Let_def)

lemma groupLoop_append:
  "groupLoop (ps @ qs) i groups cur
     = (case groupLoop ps i groups cur of (Gs, c) \<Rightarrow> groupLoop qs (i + length ps) Gs c)"
  by (induction ps arbitrary: i groups cur) simp_all

lemma groupLoop_current:
  assumes "ps \<noteq> []"
  shows "snd (groupLoop ps i groups cur) \<noteq> []"
proof -
  from assms obtain qs q where ps: "ps = qs @ [q]"
    by (cases ps rule: rev_cases) auto
  show ?thesis
    unfolding ps groupLoop_append by (simp split: prod.split)
qed

lemma pageGroups_Nil: "pageGroups [] = []"
  by (simp add: pageGroups_def)

lemma pageGroups_snoc:
  "pageGroups (ps @ [p])
     = (if ps = [] then [[p]]
        else if ResetPageNumbers p then pageGroups ps @ [[p]]
        else butlast (pageGroups ps) @ [last (pageGroups ps) @ [p]])"
proof (cases "ps = []")
  case True
  then show ?thesis by (simp add: pageGroups_def)
next
  case False
  obtain Gs c where gc: "groupLoop ps 0 [] [] = (Gs, c)"
    by (cases "groupLoop ps 0 [] []") auto
  from groupLoop_current [OF False, of 0 "[]" "[]"] gc have c: "c \<noteq> []"
    by simp
  have old: "pageGroups ps = Gs @ [c]"
    using gc c by (simp add: pageGroups_def)
  show ?thesis
    using False c
    by (simp add: old) (simp add: pageGroups_def groupLoop_append gc)
qed

lemma pageGroups_partition:
  "concat (pageGroups pages) = pages
   \<and> (\<forall>g \<in> set (pageGroups pages). g \<noteq> [] \<and> (\<forall>q \<in> set (tl g). \<not> ResetPageNumbers q))
   \<and> (\<forall>m. 0 < m \<and> m < length (pageGroups pages)
          \<longrightarrow> ResetPageNumbers (hd (pageGroups pages ! m)))"
proof (induction pages rule: rev_induct)
  case Nil
  show ?case by (simp add: pageGroups_Nil)
next
  case (snoc p ps)
  define Gs where "Gs = pageGroups ps"
  from snoc have cat: "concat Gs = ps"
    and grp: "\<And>g. g \<in> set Gs \<Longrightarrow> g \<noteq> [] \<and> (\<forall>q \<in> set (tl g). \<not> ResetPageNumbers q)"
    and start: "\<And>m. 0 < m \<Longrightarrow> m < length Gs \<Longrightarrow> ResetPageNumbers (hd (Gs ! m))"
    unfolding Gs_def by blast+
  show ?case
  proof (cases "ps = []")
    case True
    then show ?thesis using pageGroups_snoc [of "[]" p] by simp
  next
    case False
    with cat have Gs: "Gs \<noteq> []" by auto
    show ?thesis
    proof (cases "ResetPageNumbers p")
      case True
      have new: "pageGroups (ps @ [p]) = Gs @ [[p]]"
        using False True by (simp add: pageGroups_snoc Gs_def)
      have "ResetPageNumbers (hd ((Gs @ [[p]]) ! m))"
        if "0 < m" "m < length (Gs @ [[p]])" for m
        using that start [of m] True by (cases "m < length Gs") (simp_all add: nth_append)
      then show ?thesis
        unfolding new using cat grp by auto
    next
      case nr: False
      define Bs where "Bs = butlast Gs"
      define x where "x = last Gs"
      have Gx: "Gs = Bs @ [x]"
        using Gs by (simp add: Bs_def x_def)
      have new: "pageGroups (ps @ [p]) = Bs @ [x @ [p]]"
        using False nr by (simp add: pageGroups_snoc Gs_def Bs_def x_def)
      have x: "x \<noteq> []" "\<forall>q \<in> set (tl x). \<not> ResetPageNumbers q"
        using grp [of x] by (simp_all add: Gx)
      have Bs: "g \<noteq> [] \<and> (\<forall>q \<in> set (tl g). \<not> ResetPageNumbers q)" if "g \<in> set Bs" for g
        using grp [of g] that by (simp add: Gx)
      have 1: "concat (Bs @ [x @ [p]]) = ps @ [p]"
        using cat by (simp add: Gx)
      have 2: "\<forall>g \<in> set (Bs @ [x @ [p]]). g \<noteq> [] \<and> (\<forall>q \<in> set (tl g). \<not> ResetPageNumbers q)"
        using Bs x nr by auto
      have 3: "ResetPageNumbers (hd ((Bs @ [x @ [p]]) ! m))"
        if "0 < m" "m < length (Bs @ [x @ [p]])" for m
      proof (cases "m < length Bs")
        case True
        then show ?thesis using start [of m] that by (simp add: Gx nth_append)
      next
        case False
        with that have m: "m = length Bs" by simp
        show ?thesis using start [of m] that x by (simp add: Gx m)
      qed
      from 1 2 3 show ?thesis
        unfolding new by blast
    qed
  qed
qed

lemma length_numberGroup: "length (numberGroup g) = length g"
  by (simp add: numberGroup_def)

lemma nth_numberGroup:
  "i < length g \<Longrightarrow>
     numberGroup g ! i = numberPage (Sprintf_d (i + 1)) (Sprintf_d (length g)) (g ! i)"
  by (simp add: numberGroup_def)

lemma concat_nth_offset:
  assumes "m < length Gs" and "i < length (Gs ! m)"
  shows "concat Gs ! (length (concat (take m Gs)) + i) = Gs ! m ! i"
proof -
  have "Gs = take m Gs @ (Gs ! m) # drop (Suc m) Gs"
    using assms(1) by (simp add: id_take_nth_drop)
  then have "concat Gs = concat (take m Gs) @ (Gs ! m) @ concat (drop (Suc m) Gs)"
    by (metis concat.simps(2) concat_append)
  then show ?thesis
    using assms(2) by (simp add: nth_append)
qed

lemma length_concat_numberGroup:
  "length (concat (map numberGroup Gs)) = length (concat Gs)"
  by (induction Gs) (simp_all add: length_numberGroup)

lemma setPageNumbers_nth:
  assumes "m < length (pageGroups pages)" and "i < length (pageGroups pages ! m)"
  shows "setPageNumbers pages ! (length (concat (take m (pageGroups pages))) + i)
           = numberPage (Sprintf_d (i + 1)) (Sprintf_d (length (pageGroups pages ! m)))
               (pageGroups pages ! m ! i)"
proof -
  define Gs where "Gs = pageGroups pages"
  have off: "length (concat (take m (map numberGroup Gs))) = length (concat (take m Gs))"
    using length_concat_numberGroup [of "take m Gs"] by (simp add: take_map)
  have "concat (map numberGroup Gs) ! (length (concat (take m (map numberGroup Gs))) + i)
          = map numberGroup Gs ! m ! i"
    using assms by (intro concat_nth_offset) (simp_all add: Gs_def length_numberGroup)
  then show ?thesis
    using assms unfolding setPageNumbers_def Gs_def [symmetric] off
    by (simp add: nth_numberGroup)
qed

lemma ValueLines_interpolatePageNumbers:
  "ValueLines (attrs (interpolatePageNumbers w page pages))
     = map_option (map (interpolateLine page pages)) (ValueLines (attrs w))"
  by (cases w) (simp split: option.split)

lemma linesAt_Cons:
  "linesAt (i # p) (Some w)
     = (if i < length (Children w) then linesAt p (Some (Children w ! i)) else None)"
  by (simp add: linesAt_def)

lemma linesAt_interpolatePageNumbers:
  "linesAt p (Some (interpolatePageNumbers w page pages))
     = (if covered p w then linesAt p (Some w)
        else map_option (map (interpolateLine page pages)) (linesAt p (Some w)))"
proof (induction p arbitrary: w)
  case Nil
  show ?case by (simp add: linesAt_def ValueLines_interpolatePageNumbers)
next
  case (Cons i p)
  obtain a cs cols ch cf where w: "w = Widget a cs cols ch cf" by (cases w)
  show ?case
  proof (cases "ValueLines a")
    case None
    then show ?thesis
      using Cons.IH [of "cs ! i"] by (simp add: w linesAt_Cons)
  next
    case (Some ls)
    then show ?thesis
      by (simp add: w linesAt_Cons)
  qed
qed

lemma linesAt_numberPage:
  "linesAt p (Header (numberPage current totalPages q))
     = (if coveredAt p (Header q) then linesAt p (Header q)
        else map_option (map (interpolateLine current totalPages)) (linesAt p (Header q)))"
  "linesAt p (Footer (numberPage current totalPages q))
     = (if coveredAt p (Footer q) then linesAt p (Footer q)
        else map_option (map (interpolateLine current totalPages)) (linesAt p (Footer q)))"
proof -
  show "linesAt p (Header (numberPage current totalPages q))
     = (if coveredAt p (Header q) then linesAt p (Header q)
        else map_option (map (interpolateLine current totalPages)) (linesAt p (Header q)))"
  proof (cases "Header q")
    case None
    then show ?thesis by (simp add: numberPage_def linesAt_def coveredAt_def)
  next
    case (Some h)
    then show ?thesis
      using linesAt_interpolatePageNumbers [of p h current totalPages]
      by (simp add: numberPage_def coveredAt_def)
  qed
  show "linesAt p (Footer (numberPage current totalPages q))
     = (if coveredAt p (Footer q) then linesAt p (Footer q)
        else map_option (map (interpolateLine current totalPages)) (linesAt p (Footer q)))"
  proof (cases "Footer q")
    case None
    then show ?thesis by (simp add: numberPage_def linesAt_def coveredAt_def)
  next
    case (Some f)
    then show ?thesis
      using linesAt_interpolatePageNumbers [of p f current totalPages]
      by (simp add: numberPage_def coveredAt_def)
  qed
qed

lemma numberPage_keeps:
  "PageWidget (numberPage current totalPages q) = PageWidget q"
  "ResetPageNumbers (numberPage current totalPages q) = ResetPageNumbers q"
  by (simp_all add: numberPage_def)

text \<open>
  C6 (as the code has it). The groups that \<open>setPageNumbers\<close> forms are a partition of the
  output pages into runs: put one after the other they are the pages; no group is empty;
  no page but the first of a group has \<open>resetPageNumbers\<close>; and the first page of every
  group after the first has it. The page at index \<open>i\<close> of group \<open>m\<close> is, after the call, the
  same page with its header and footer interpolated: at every path below the header (or
  footer), the value lines are those of before with \<open>{page}\<close> replaced by \<open>i + 1\<close> and then
  \<open>{pages}\<close> by the length of the group in each line, unless a widget above on the path has
  value lines of its own, in which case they are the lines of before.
\<close>

theorem page_numbers_by_group:
  assumes "m < length (pageGroups pages)" and "i < length (pageGroups pages ! m)"
  shows "concat (pageGroups pages) = pages
       \<and> (\<forall>g \<in> set (pageGroups pages). g \<noteq> [] \<and> (\<forall>q \<in> set (tl g). \<not> ResetPageNumbers q))
       \<and> (\<forall>n. 0 < n \<and> n < length (pageGroups pages)
              \<longrightarrow> ResetPageNumbers (hd (pageGroups pages ! n)))
       \<and> length (setPageNumbers pages) = length pages
       \<and> (let k = length (concat (take m (pageGroups pages))) + i;
               q = pages ! k;
               out = setPageNumbers pages ! k;
               current = Sprintf_d (i + 1);
               totalPages = Sprintf_d (length (pageGroups pages ! m))
           in k < length pages
              \<and> q = pageGroups pages ! m ! i
              \<and> PageWidget out = PageWidget q
              \<and> ResetPageNumbers out = ResetPageNumbers q
              \<and> (\<forall>p. linesAt p (Header out)
                       = (if coveredAt p (Header q) then linesAt p (Header q)
                          else map_option (map (interpolateLine current totalPages))
                                 (linesAt p (Header q))))
              \<and> (\<forall>p. linesAt p (Footer out)
                       = (if coveredAt p (Footer q) then linesAt p (Footer q)
                          else map_option (map (interpolateLine current totalPages))
                                 (linesAt p (Footer q)))))"
proof -
  define Gs where "Gs = pageGroups pages"
  define k where "k = length (concat (take m Gs)) + i"
  note part = pageGroups_partition [of pages, folded Gs_def]
  have cat: "concat Gs = pages"
    using part by blast
  have len: "length (setPageNumbers pages) = length pages"
    using length_concat_numberGroup [of Gs] cat by (simp add: setPageNumbers_def Gs_def)
  have q: "pages ! k = Gs ! m ! i"
    using concat_nth_offset [of m Gs i] assms cat by (simp add: Gs_def k_def)
  have "Gs = take m Gs @ (Gs ! m) # drop (Suc m) Gs"
    using assms(1) by (simp add: id_take_nth_drop Gs_def)
  then have "concat Gs = concat (take m Gs) @ (Gs ! m) @ concat (drop (Suc m) Gs)"
    by (metis concat.simps(2) concat_append)
  then have "length pages = length (concat (take m Gs)) + length (Gs ! m)
                              + length (concat (drop (Suc m) Gs))"
    using cat by (metis length_append add.assoc)
  then have k: "k < length pages"
    using assms(2) by (simp add: k_def Gs_def)
  have out: "setPageNumbers pages ! k
               = numberPage (Sprintf_d (i + 1)) (Sprintf_d (length (Gs ! m))) (pages ! k)"
    using setPageNumbers_nth [OF assms] q by (simp add: Gs_def k_def)
  show ?thesis
    unfolding Let_def Gs_def [symmetric] k_def [symmetric] out
    using part len k q
    by (simp add: linesAt_numberPage numberPage_keeps)
qed

theorem page_numbers_by_group_witness:
  "pageGroups numberedPages = [[numberedPage False, numberedPage False], [numberedPage True]]
   \<and> linesAt [0] (Header (numberedPages ! 1)) = Some [str ''Page {page} of {pages}'']
   \<and> linesAt [0] (Header (setPageNumbers numberedPages ! 1)) = Some [str ''Page 2 of 2'']"
proof -
  have g: "pageGroups numberedPages
             = [[numberedPage False, numberedPage False], [numberedPage True]]"
    by code_simp
  have k: "length (concat (take 0 [[numberedPage False, numberedPage False],
                                     [numberedPage True]])) + 1 = 1"
    and l: "length ([[numberedPage False, numberedPage False], [numberedPage True]] ! 0) = 2"
    by simp_all
  have pre: "0 < length [[numberedPage False, numberedPage False], [numberedPage True]]"
    "1 < (2 :: nat)"
    by simp_all
  from page_numbers_by_group [of 0 numberedPages 1, unfolded g Let_def k l, OF pre]
  have "\<forall>p. linesAt p (Header (setPageNumbers numberedPages ! 1))
               = (if coveredAt p (Header (numberedPages ! 1))
                  then linesAt p (Header (numberedPages ! 1))
                  else map_option (map (interpolateLine (Sprintf_d (1 + 1)) (Sprintf_d 2)))
                         (linesAt p (Header (numberedPages ! 1))))"
    by blast
  then have "linesAt [0] (Header (setPageNumbers numberedPages ! 1))
               = (if coveredAt [0] (Header (numberedPages ! 1))
                  then linesAt [0] (Header (numberedPages ! 1))
                  else map_option (map (interpolateLine (Sprintf_d (1 + 1)) (Sprintf_d 2)))
                         (linesAt [0] (Header (numberedPages ! 1))))"
    by blast
  also have "\<dots> = Some [str ''Page 2 of 2'']"
    by code_simp
  finally have n: "linesAt [0] (Header (setPageNumbers numberedPages ! 1))
                     = Some [str ''Page 2 of 2'']" .
  have b: "linesAt [0] (Header (numberedPages ! 1)) = Some [str ''Page {page} of {pages}'']"
    by code_simp
  from g b n show ?thesis by blast
qed

text \<open>
  C6 as stated fails for a widget below a widget that has value lines of its own: in a
  header with the text \<open>Page {page}\<close> and a child with the text \<open>of {pages}\<close>, on the only
  page of the document, the header's line becomes \<open>Page 1\<close> and the child keeps its
  placeholder.
\<close>

theorem page_numbers_counterexample:
  "linesAt [0] (Header nestedHeaderPage) = Some [str ''of {pages}'']
   \<and> linesAt [] (Header (setPageNumbers [nestedHeaderPage] ! 0)) = Some [str ''Page 1'']
   \<and> linesAt [0] (Header (setPageNumbers [nestedHeaderPage] ! 0)) = Some [str ''of {pages}'']"
  by code_simp



end
